theory Spec2Isabelle
  imports Main
begin

section \<open>Tasks, work items and task outcomes\<close>

text \<open>
  The source is \<^verbatim>\<open>Simple Task Queue/Task Queue.py\<close>. A task is an opaque zero-argument
  callable; the model only needs its identity. A work item is the tuple
  \<^verbatim>\<open>(task, retries)\<close> that \<^verbatim>\<open>submit\<close> puts on the queue; \<^verbatim>\<open>retries\<close> is a Python
  integer, so it is an \<open>int\<close> here and may be negative.

  Calling \<^verbatim>\<open>task()\<close> has three outcomes that the worker's \<^verbatim>\<open>try\<close> statement tells
  apart: the call returns, it raises an instance of \<^verbatim>\<open>Exception\<close> (caught by
  \<^verbatim>\<open>except Exception\<close>), or it raises a \<^verbatim>\<open>BaseException\<close> that is not an
  \<^verbatim>\<open>Exception\<close> (\<^verbatim>\<open>SystemExit\<close>, \<^verbatim>\<open>KeyboardInterrupt\<close>, \<^verbatim>\<open>GeneratorExit\<close>), which
  \<^verbatim>\<open>except Exception\<close> does not catch.
\<close>

type_synonym task = nat

type_synonym work_item = "task \<times> int"

datatype outcome = Returns | RaisesException | RaisesBaseException

section \<open>The standard library's queue.Queue\<close>

text \<open>
  \<^verbatim>\<open>queue.Queue()\<close> is Python's standard library class, used by the source with its
  default \<^verbatim>\<open>maxsize = 0\<close>. The model keeps the three attributes the source's calls read
  or write: \<^verbatim>\<open>maxsize\<close>, the deque \<^verbatim>\<open>queue\<close> and the counter \<^verbatim>\<open>unfinished_tasks\<close>.
  Each method runs under the queue's mutex, so each is one atomic function on the record.
\<close>

datatype error = Empty | ValueError

record Queue =
  maxsize :: int
  queue :: "work_item list"
  unfinished_tasks :: int

definition Queue_new :: Queue where
  "Queue_new = \<lparr>maxsize = 0, queue = [], unfinished_tasks = 0\<rparr>"

text \<open>
  \<^verbatim>\<open>put(item)\<close> with \<^verbatim>\<open>block=True, timeout=None\<close>: waits while the queue is bounded and
  full (the result \<open>None\<close>: the caller is blocked), otherwise appends the item at the
  right end of the deque and increments \<^verbatim>\<open>unfinished_tasks\<close>.
\<close>

definition put :: "work_item \<Rightarrow> Queue \<Rightarrow> Queue option" where
  "put item q =
     (if maxsize q > 0 \<and> int (length (queue q)) \<ge> maxsize q then None
      else Some (q\<lparr>queue := queue q @ [item], unfinished_tasks := unfinished_tasks q + 1\<rparr>))"

text \<open>
  \<^verbatim>\<open>get(timeout=1)\<close>: pops the left end of the deque; when the deque is still empty
  once the timeout has passed it raises \<^verbatim>\<open>queue.Empty\<close>.
\<close>

definition get :: "Queue \<Rightarrow> error + (work_item \<times> Queue)" where
  "get q = (case queue q of [] \<Rightarrow> Inl Empty | item # rest \<Rightarrow> Inr (item, q\<lparr>queue := rest\<rparr>))"

text \<open>
  \<^verbatim>\<open>task_done()\<close>: decrements \<^verbatim>\<open>unfinished_tasks\<close>; raises \<^verbatim>\<open>ValueError\<close> when the
  counter would become negative.
\<close>

definition task_done :: "Queue \<Rightarrow> error + Queue" where
  "task_done q =
     (let unfinished = unfinished_tasks q - 1
      in if unfinished < 0 then Inl ValueError else Inr (q\<lparr>unfinished_tasks := unfinished\<rparr>))"

text \<open>\<^verbatim>\<open>join()\<close> waits while \<^verbatim>\<open>unfinished_tasks\<close> is non-zero; it returns when it is zero.\<close>

definition join_returns :: "Queue \<Rightarrow> bool" where
  "join_returns q = (unfinished_tasks q = 0)"

section \<open>The TaskQueue object and its worker threads\<close>

text \<open>
  Each worker thread runs \<^verbatim>\<open>TaskQueue.worker\<close>. Its control state records where in that
  method the thread is:
  \<^item> \<open>LoopHead\<close>: about to evaluate \<^verbatim>\<open>while self.running\<close>;
  \<^item> \<open>Polling\<close>: inside \<^verbatim>\<open>self.task_queue.get(timeout=1)\<close>;
  \<^item> \<open>Executing task retries\<close>: the tuple has been unpacked, \<^verbatim>\<open>task()\<close> is being called;
  \<^item> \<open>Handling task retries\<close>: inside the \<^verbatim>\<open>except Exception\<close> block;
  \<^item> \<open>Finishing task retries propagating\<close>: at the \<^verbatim>\<open>finally\<close> block, about to call
    \<^verbatim>\<open>task_done()\<close>; \<open>propagating\<close> tells whether an uncaught exception is in flight;
  \<^item> \<open>Exited\<close>: the loop condition was false and \<^verbatim>\<open>worker\<close> returned;
  \<^item> \<open>Crashed\<close>: an exception left \<^verbatim>\<open>worker\<close> and ended the thread.
\<close>

datatype pc =
    LoopHead
  | Polling
  | Executing task int
  | Handling task int
  | Finishing task int bool
  | Exited
  | Crashed

text \<open>
  The object's fields are \<^verbatim>\<open>task_queue\<close>, \<^verbatim>\<open>workers\<close> (one thread per entry, here its
  control state) and \<^verbatim>\<open>running\<close>. Three traces record what the program does to the
  outside: \<open>stdout\<close> holds the printed lines, \<open>calls\<close> every completed call of
  \<^verbatim>\<open>task()\<close> with the work item's retries and the call's outcome, and \<open>finished\<close> the task
  of every item for which \<^verbatim>\<open>task_done()\<close> has been called.
\<close>

record TaskQueue =
  task_queue :: Queue
  workers :: "pc list"
  running :: bool
  stdout :: "string list"
  calls :: "(task \<times> int \<times> outcome) list"
  finished :: "task list"

text \<open>\<^verbatim>\<open>__init__(num_workers)\<close>: a fresh queue, the flag set, every worker at its loop head.\<close>

definition init :: "nat \<Rightarrow> TaskQueue" where
  "init num_workers =
     \<lparr>task_queue = Queue_new, workers = replicate num_workers LoopHead, running = True,
      stdout = [], calls = [], finished = []\<rparr>"

text \<open>
  \<^verbatim>\<open>submit(task, retries=3)\<close>: the optional argument is \<open>None\<close> when the caller leaves it
  out, and then stands for 3. The result of \<open>submit\<close> is \<open>None\<close> when \<^verbatim>\<open>put\<close> blocks.
\<close>

definition default_retries :: "int option \<Rightarrow> int" where
  "default_retries retries = (case retries of None \<Rightarrow> 3 | Some r \<Rightarrow> r)"

definition submit :: "task \<Rightarrow> int option \<Rightarrow> TaskQueue \<Rightarrow> TaskQueue option" where
  "submit t retries s =
     (case put (t, default_retries retries) (task_queue s) of
        None \<Rightarrow> None
      | Some q \<Rightarrow> Some (s\<lparr>task_queue := q\<rparr>))"

text \<open>\<^verbatim>\<open>shutdown()\<close> clears the flag; its bounded joins on the threads change nothing.\<close>

definition shutdown :: "TaskQueue \<Rightarrow> TaskQueue" where
  "shutdown s = s\<lparr>running := False\<rparr>"

definition set_worker :: "nat \<Rightarrow> pc \<Rightarrow> TaskQueue \<Rightarrow> TaskQueue" where
  "set_worker w p s = s\<lparr>workers := (workers s)[w := p]\<rparr>"

subsection \<open>The steps of one worker\<close>

text \<open>\<^verbatim>\<open>while self.running:\<close> enters the loop body or leaves the method.\<close>

definition worker_check :: "nat \<Rightarrow> TaskQueue \<Rightarrow> TaskQueue option" where
  "worker_check w s =
     (case workers s ! w of
        LoopHead \<Rightarrow> Some (set_worker w (if running s then Polling else Exited) s)
      | _ \<Rightarrow> None)"

text \<open>\<^verbatim>\<open>task, retries = self.task_queue.get(timeout=1)\<close> returning an item.\<close>

definition worker_dequeue :: "nat \<Rightarrow> TaskQueue \<Rightarrow> TaskQueue option" where
  "worker_dequeue w s =
     (case workers s ! w of
        Polling \<Rightarrow>
          (case get (task_queue s) of
             Inr ((t, r), q) \<Rightarrow> Some (set_worker w (Executing t r) (s\<lparr>task_queue := q\<rparr>))
           | Inl _ \<Rightarrow> None)
      | _ \<Rightarrow> None)"

text \<open>The same call raising \<^verbatim>\<open>queue.Empty\<close>: \<^verbatim>\<open>except queue.Empty: continue\<close>.\<close>

definition worker_timeout :: "nat \<Rightarrow> TaskQueue \<Rightarrow> TaskQueue option" where
  "worker_timeout w s =
     (case workers s ! w of
        Polling \<Rightarrow>
          (case get (task_queue s) of
             Inl _ \<Rightarrow> Some (set_worker w LoopHead s)
           | Inr _ \<Rightarrow> None)
      | _ \<Rightarrow> None)"

text \<open>
  \<^verbatim>\<open>task()\<close> completes with the given outcome: a return goes to the \<^verbatim>\<open>finally\<close> block,
  an \<^verbatim>\<open>Exception\<close> to the \<^verbatim>\<open>except\<close> block, any other \<^verbatim>\<open>BaseException\<close> to the
  \<^verbatim>\<open>finally\<close> block while it propagates.
\<close>

definition worker_run :: "nat \<Rightarrow> outcome \<Rightarrow> TaskQueue \<Rightarrow> TaskQueue option" where
  "worker_run w out s =
     (case workers s ! w of
        Executing t r \<Rightarrow>
          Some (set_worker w
                  (case out of
                     Returns \<Rightarrow> Finishing t r False
                   | RaisesException \<Rightarrow> Handling t r
                   | RaisesBaseException \<Rightarrow> Finishing t r True)
                  (s\<lparr>calls := calls s @ [(t, r, out)]\<rparr>))
      | _ \<Rightarrow> None)"

text \<open>
  The \<^verbatim>\<open>except Exception\<close> block: \<^verbatim>\<open>if retries > 0:\<close> print the notice and call
  \<^verbatim>\<open>self.submit(task, retries - 1)\<close>; then on to the \<^verbatim>\<open>finally\<close> block.
\<close>

definition worker_handle :: "nat \<Rightarrow> TaskQueue \<Rightarrow> TaskQueue option" where
  "worker_handle w s =
     (case workers s ! w of
        Handling t r \<Rightarrow>
          (if r > 0 then
             (case submit t (Some (r - 1)) (s\<lparr>stdout := stdout s @ [''Retrying task...'']\<rparr>) of
                None \<Rightarrow> None
              | Some s' \<Rightarrow> Some (set_worker w (Finishing t r False) s'))
           else Some (set_worker w (Finishing t r False) s))
      | _ \<Rightarrow> None)"

text \<open>
  The \<^verbatim>\<open>finally\<close> block: \<^verbatim>\<open>self.task_queue.task_done()\<close>. A \<^verbatim>\<open>ValueError\<close> raised by it,
  or the exception that was propagating, leaves \<^verbatim>\<open>worker\<close> (the outer handler catches
  \<^verbatim>\<open>queue.Empty\<close> only); otherwise the loop starts over.
\<close>

definition worker_task_done :: "nat \<Rightarrow> TaskQueue \<Rightarrow> TaskQueue option" where
  "worker_task_done w s =
     (case workers s ! w of
        Finishing t r propagating \<Rightarrow>
          (case task_done (task_queue s) of
             Inl _ \<Rightarrow> Some (set_worker w Crashed s)
           | Inr q \<Rightarrow>
               Some (set_worker w (if propagating then Crashed else LoopHead)
                       (s\<lparr>task_queue := q, finished := finished s @ [t]\<rparr>)))
      | _ \<Rightarrow> None)"

subsection \<open>Interleaved executions\<close>

text \<open>
  An execution of the program is a sequence of atomic events: the caller's
  \<^verbatim>\<open>submit\<close>, \<^verbatim>\<open>task_queue.join()\<close> returning and \<^verbatim>\<open>shutdown\<close>, and the steps of the
  worker threads. \<open>step\<close> is \<open>None\<close> when the event cannot happen in the state.
\<close>

datatype event =
    Submit task "int option"
  | Join
  | Shutdown
  | Check nat
  | Dequeue nat
  | Timeout nat
  | Run nat outcome
  | Handle nat
  | TaskDone nat

fun step :: "event \<Rightarrow> TaskQueue \<Rightarrow> TaskQueue option" where
  "step (Submit t retries) s = submit t retries s"
| "step Join s = (if join_returns (task_queue s) then Some s else None)"
| "step Shutdown s = Some (shutdown s)"
| "step (Check w) s = (if w < length (workers s) then worker_check w s else None)"
| "step (Dequeue w) s = (if w < length (workers s) then worker_dequeue w s else None)"
| "step (Timeout w) s = (if w < length (workers s) then worker_timeout w s else None)"
| "step (Run w out) s = (if w < length (workers s) then worker_run w out s else None)"
| "step (Handle w) s = (if w < length (workers s) then worker_handle w s else None)"
| "step (TaskDone w) s = (if w < length (workers s) then worker_task_done w s else None)"

fun run :: "event list \<Rightarrow> TaskQueue \<Rightarrow> TaskQueue option" where
  "run [] s = Some s"
| "run (e # es) s = (case step e s of None \<Rightarrow> None | Some s' \<Rightarrow> run es s')"

definition reachable :: "nat \<Rightarrow> event list \<Rightarrow> TaskQueue \<Rightarrow> bool" where
  "reachable n es s = (run es (init n) = Some s)"

section \<open>Measures used in the statements\<close>

text \<open>A worker holds a work item from the moment \<^verbatim>\<open>get\<close> returned it until \<^verbatim>\<open>task_done\<close>.\<close>

fun holds :: "pc \<Rightarrow> bool" where
  "holds (Executing t r) = True"
| "holds (Handling t r) = True"
| "holds (Finishing t r p) = True"
| "holds _ = False"

definition in_flight :: "TaskQueue \<Rightarrow> int" where
  "in_flight s = (\<Sum>p\<leftarrow>workers s. if holds p then 1 else 0)"

text \<open>
  The steps a worker takes for the item it holds, from the call of \<^verbatim>\<open>task()\<close> to the end
  of the \<^verbatim>\<open>finally\<close> block: the \<^verbatim>\<open>except\<close> block runs only after an \<^verbatim>\<open>Exception\<close>.
\<close>

definition process_item :: "nat \<Rightarrow> outcome \<Rightarrow> event list" where
  "process_item w out =
     Run w out # (if out = RaisesException then [Handle w] else []) @ [TaskDone w]"

text \<open>The worker thread an event belongs to; the caller's events belong to none.\<close>

fun worker_of :: "event \<Rightarrow> nat option" where
  "worker_of (Check w) = Some w"
| "worker_of (Dequeue w) = Some w"
| "worker_of (Timeout w) = Some w"
| "worker_of (Run w out) = Some w"
| "worker_of (Handle w) = Some w"
| "worker_of (TaskDone w) = Some w"
| "worker_of _ = None"

text \<open>The most recent step of worker \<open>w\<close> in an execution, if it has taken one.\<close>

definition last_own :: "nat \<Rightarrow> event list \<Rightarrow> event option" where
  "last_own w es =
     (let own = filter (\<lambda>e. worker_of e = Some w) es
      in if own = [] then None else Some (last own))"

subsection \<open>Counting executions against the retry budget\<close>

text \<open>The retries with which the caller submitted task \<open>t\<close> in an execution, in order.\<close>

fun submitted :: "task \<Rightarrow> event list \<Rightarrow> int list" where
  "submitted t [] = []"
| "submitted t (Submit t' retries # es) =
     (if t' = t then default_retries retries # submitted t es else submitted t es)"
| "submitted t (_ # es) = submitted t es"

text \<open>How often \<^verbatim>\<open>task()\<close> has been called for task \<open>t\<close>.\<close>

definition executions :: "task \<Rightarrow> TaskQueue \<Rightarrow> nat" where
  "executions t s = length (filter (\<lambda>c. fst c = t) (calls s))"

text \<open>
  A work item with retries \<open>r\<close> allows one execution, and one more for each retry the
  test \<^verbatim>\<open>retries > 0\<close> will grant: \<open>max r 0 + 1\<close> in all. The pending budget of a task
  adds up what the items in the queue and the items held by workers still allow (a
  worker in the \<^verbatim>\<open>except\<close> block has used the execution of its item, not yet the retry).
  A call that did not raise an \<^verbatim>\<open>Exception\<close> forfeits the retries its item had left.
\<close>

definition allowance :: "int \<Rightarrow> int" where
  "allowance r = max r 0 + 1"

definition item_budget :: "task \<Rightarrow> work_item \<Rightarrow> int" where
  "item_budget t item = (if fst item = t then allowance (snd item) else 0)"

fun pc_budget :: "task \<Rightarrow> pc \<Rightarrow> int" where
  "pc_budget t (Executing t' r) = (if t' = t then allowance r else 0)"
| "pc_budget t (Handling t' r) = (if t' = t then max r 0 else 0)"
| "pc_budget t _ = 0"

definition pending_budget :: "task \<Rightarrow> TaskQueue \<Rightarrow> int" where
  "pending_budget t s =
     (\<Sum>item\<leftarrow>queue (task_queue s). item_budget t item) + (\<Sum>p\<leftarrow>workers s. pc_budget t p)"

definition forfeited :: "task \<Rightarrow> TaskQueue \<Rightarrow> int" where
  "forfeited t s =
     (\<Sum>c\<leftarrow>calls s. if fst c = t \<and> snd (snd c) \<noteq> RaisesException then max (fst (snd c)) 0 else 0)"

text \<open>
  The items of task \<open>t\<close> that still await their execution: those in the queue and those
  whose \<^verbatim>\<open>task()\<close> call a worker has not completed yet.
\<close>

definition awaiting :: "task \<Rightarrow> TaskQueue \<Rightarrow> int" where
  "awaiting t s =
     (\<Sum>item\<leftarrow>queue (task_queue s). if fst item = t then 1 else 0)
     + (\<Sum>p\<leftarrow>workers s. case p of Executing t' r \<Rightarrow> if t' = t then 1 else 0 | _ \<Rightarrow> 0)"

subsection \<open>Reading negative retries as zero\<close>





subsection \<open>Order of submission, execution and completion\<close>

text \<open>The tasks the caller submitted in an execution, in the order of the calls.\<close>

fun submitted_tasks :: "event list \<Rightarrow> task list" where
  "submitted_tasks [] = []"
| "submitted_tasks (Submit t retries # es) = t # submitted_tasks es"
| "submitted_tasks (_ # es) = submitted_tasks es"

text \<open>
  The task of the item a worker holds, and the task whose call the worker has not
  completed yet.
\<close>

fun held_task :: "pc \<Rightarrow> task list" where
  "held_task (Executing t r) = [t]"
| "held_task (Handling t r) = [t]"
| "held_task (Finishing t r p) = [t]"
| "held_task _ = []"

fun called_task :: "pc \<Rightarrow> task list" where
  "called_task (Executing t r) = [t]"
| "called_task _ = []"

text \<open>
  With a single worker that is not in its \<^verbatim>\<open>except\<close> block: the finished tasks, then
  the held one, then the queued ones are the submitted tasks in order; likewise the
  called tasks, then the one being called, then the queued ones.
\<close>

fun handling :: "pc \<Rightarrow> bool" where
  "handling (Handling t r) = True"
| "handling _ = False"

definition in_order :: "event list \<Rightarrow> TaskQueue \<Rightarrow> bool" where
  "in_order es s =
     (length (workers s) = 1 \<and> list_all (\<lambda>p. \<not> handling p) (workers s)
      \<and> finished s @ concat (map held_task (workers s)) @ map fst (queue (task_queue s))
          = submitted_tasks es
      \<and> map fst (calls s) @ concat (map called_task (workers s))
            @ map fst (queue (task_queue s))
          = submitted_tasks es)"

section \<open>Basic facts about executions\<close>

lemma run_append:
  "run (es @ es') s = (case run es s of None \<Rightarrow> None | Some s' \<Rightarrow> run es' s')"
  by (induction es arbitrary: s) (auto split: option.splits)

lemma run_snoc:
  "run (es @ [e]) s = (case run es s of None \<Rightarrow> None | Some s' \<Rightarrow> step e s')"
  by (simp add: run_append split: option.splits)

lemma reachable_induct [consumes 1, case_names init step]:
  assumes "reachable n es s"
    and "P [] (init n)"
    and "\<And>es s e s'. reachable n es s \<Longrightarrow> P es s \<Longrightarrow> step e s = Some s' \<Longrightarrow> P (es @ [e]) s'"
  shows "P es s"
  using assms(1)
proof (induction es arbitrary: s rule: rev_induct)
  case Nil
  then show ?case using assms(2) by (simp add: reachable_def)
next
  case (snoc e es)
  then obtain s0 where "run es (init n) = Some s0" "step e s0 = Some s"
    by (auto simp: reachable_def run_snoc split: option.splits)
  then show ?case using snoc.IH assms(3) by (simp add: reachable_def)
qed

lemmas worker_defs = worker_check_def worker_dequeue_def worker_timeout_def worker_run_def
  worker_handle_def worker_task_done_def set_worker_def submit_def default_retries_def put_def
  get_def task_done_def shutdown_def join_returns_def

lemma sum_list_map_update:
  fixes f :: "'a \<Rightarrow> int"
  shows "i < length xs \<Longrightarrow> (\<Sum>x\<leftarrow>xs[i := y]. f x) = (\<Sum>x\<leftarrow>xs. f x) - f (xs ! i) + f y"
  by (induction xs arbitrary: i) (auto split: nat.splits)

lemma sum_list_nonneg_member:
  fixes f :: "'a \<Rightarrow> int"
  shows "i < length xs \<Longrightarrow> (\<And>x. 0 \<le> f x) \<Longrightarrow> f (xs ! i) \<le> (\<Sum>x\<leftarrow>xs. f x)"
proof (induction xs arbitrary: i)
  case Nil
  then show ?case by simp
next
  case (Cons a xs)
  have "0 \<le> (\<Sum>x\<leftarrow>xs. f x)" by (rule sum_list_nonneg) (auto simp: Cons.prems)
  moreover have "0 \<le> f a" by (rule Cons.prems)
  ultimately show ?case using Cons by (cases i) (auto simp: add_increasing)
qed

subsection \<open>The queue stays unbounded and the pool keeps its size\<close>

lemma step_shape:
  assumes "step e s = Some s'"
  shows "maxsize (task_queue s') = maxsize (task_queue s) \<and> length (workers s') = length (workers s)"
  using assms
  by (cases e) (auto simp: worker_defs Let_def split: if_splits pc.splits sum.splits option.splits list.splits)

lemma reachable_shape:
  "reachable n es s \<Longrightarrow> maxsize (task_queue s) = 0 \<and> length (workers s) = n"
  by (induction rule: reachable_induct) (auto simp: init_def Queue_new_def dest: step_shape)

subsection \<open>The counter of unfinished items\<close>

lemma holds_in_flight:
  "w < length ws \<Longrightarrow> holds (ws ! w) \<Longrightarrow> 1 \<le> (\<Sum>p\<leftarrow>ws. if holds p then 1 else (0::int))"
  using sum_list_nonneg_member [of w ws "\<lambda>p. if holds p then 1 else 0"] by simp

lemma step_unfinished:
  assumes "step e s = Some s'" "maxsize (task_queue s) = 0"
    "unfinished_tasks (task_queue s) = int (length (queue (task_queue s))) + in_flight s"
  shows "unfinished_tasks (task_queue s') = int (length (queue (task_queue s'))) + in_flight s'"
  using assms
  by (cases e) (auto simp: worker_defs in_flight_def sum_list_map_update Let_def dest: holds_in_flight split: if_splits pc.splits sum.splits option.splits list.splits outcome.splits)

lemma reachable_unfinished:
  "reachable n es s \<Longrightarrow>
     unfinished_tasks (task_queue s) = int (length (queue (task_queue s))) + in_flight s"
proof (induction rule: reachable_induct)
  case init
  show ?case by (simp add: init_def Queue_new_def in_flight_def sum_list_replicate)
next
  case (step es s e s')
  then show ?case using step_unfinished reachable_shape by blast
qed

lemma in_flight_nonneg: "0 \<le> in_flight s"
  unfolding in_flight_def by (rule sum_list_nonneg) auto

lemma in_flight_zero:
  assumes "in_flight s = 0" "p \<in> set (workers s)"
  shows "\<not> holds p"
proof
  assume h: "holds p"
  from assms(2) obtain w where "w < length (workers s)" "workers s ! w = p"
    by (auto simp: in_set_conv_nth)
  with h have "1 \<le> in_flight s" unfolding in_flight_def by (auto intro: holds_in_flight)
  with assms(1) show False by simp
qed

section \<open>Submission\<close>

text \<open>
  Claim C8. \<^verbatim>\<open>submit(task, retries)\<close>, with \<^verbatim>\<open>retries\<close> defaulting to 3, appends the work
  item \<^verbatim>\<open>(task, retries)\<close> at the tail of the queue. In every state the program can reach,
  the call completes (it does not block, the queue being unbounded) and reports no
  failure: its result is the state with the item appended and one more unfinished item.
\<close>

theorem submit_never_blocks:
  assumes "reachable n es s"
  shows "submit t retries s =
           Some (s\<lparr>task_queue := (task_queue s)
                   \<lparr>queue := queue (task_queue s) @ [(t, case retries of None \<Rightarrow> 3 | Some r \<Rightarrow> r)],
                    unfinished_tasks := unfinished_tasks (task_queue s) + 1\<rparr>\<rparr>)"
  using reachable_shape [OF assms] by (simp add: submit_def default_retries_def put_def)

theorem submit_never_blocks_witness:
  "reachable 1 [Submit 0 None, Check 0, Dequeue 0]
     \<lparr>task_queue = \<lparr>maxsize = 0, queue = [], unfinished_tasks = 1\<rparr>, workers = [Executing 0 3],
      running = True, stdout = [], calls = [], finished = []\<rparr>
   \<and> submit 7 None
     \<lparr>task_queue = \<lparr>maxsize = 0, queue = [], unfinished_tasks = 1\<rparr>, workers = [Executing 0 3],
      running = True, stdout = [], calls = [], finished = []\<rparr>
     = Some \<lparr>task_queue = \<lparr>maxsize = 0, queue = [(7, 3)], unfinished_tasks = 2\<rparr>,
        workers = [Executing 0 3], running = True, stdout = [], calls = [], finished = []\<rparr>"
proof -
  have r: "reachable 1 [Submit 0 None, Check 0, Dequeue 0]
     \<lparr>task_queue = \<lparr>maxsize = 0, queue = [], unfinished_tasks = 1\<rparr>, workers = [Executing 0 3],
      running = True, stdout = [], calls = [], finished = []\<rparr>"
    by (simp add: reachable_def init_def Queue_new_def worker_defs)
  show ?thesis using r submit_never_blocks [OF r, of 7 None] by simp
qed

section \<open>Processing one work item\<close>

lemma holding_unfinished:
  assumes "reachable n es s" "w < length (workers s)" "holds (workers s ! w)"
  shows "1 \<le> unfinished_tasks (task_queue s)"
proof -
  have "1 \<le> in_flight s" unfolding in_flight_def using assms(2,3) by (rule holds_in_flight)
  then show ?thesis using reachable_unfinished [OF assms(1)] by simp
qed

lemma exception_path:
  assumes "reachable n es s" and "w < length (workers s)" and "workers s ! w = Executing t r"
  shows "run [Run w RaisesException, Handle w] s =
           Some (if 0 < r
                 then s\<lparr>task_queue := (task_queue s)
                          \<lparr>queue := queue (task_queue s) @ [(t, r - 1)],
                           unfinished_tasks := unfinished_tasks (task_queue s) + 1\<rparr>,
                        workers := (workers s)[w := Finishing t r False],
                        stdout := stdout s @ [''Retrying task...''],
                        calls := calls s @ [(t, r, RaisesException)]\<rparr>
                 else s\<lparr>workers := (workers s)[w := Finishing t r False],
                        calls := calls s @ [(t, r, RaisesException)]\<rparr>)"
  using reachable_shape [OF assms(1)] assms(2,3) by (simp add: worker_defs)

text \<open>
  Claim C2, amended. A worker holds the dequeued item \<^verbatim>\<open>(task, retries)\<close>. When
  \<^verbatim>\<open>task()\<close> raises an \<^verbatim>\<open>Exception\<close>: with \<^verbatim>\<open>retries > 0\<close> the \<^verbatim>\<open>except\<close> block prints the
  notice "Retrying task..." and appends the new item \<^verbatim>\<open>(task, retries - 1)\<close> at the tail
  of the queue; with \<^verbatim>\<open>retries\<close> 0 (or less) nothing is enqueued and nothing is printed:
  apart from the record of the call and the worker's own control state, the state is
  unchanged. When \<^verbatim>\<open>task()\<close> raises a \<^verbatim>\<open>BaseException\<close> that is not an \<^verbatim>\<open>Exception\<close>, the
  \<^verbatim>\<open>except\<close> block is not entered: whatever the retries, nothing is enqueued and nothing
  is printed, \<^verbatim>\<open>task_done()\<close> is called and the worker thread ends.
\<close>

theorem failure_path:
  assumes "reachable n es s" and "w < length (workers s)" and "workers s ! w = Executing t r"
  shows "run [Run w RaisesException, Handle w] s =
           Some (if 0 < r
                 then s\<lparr>task_queue := (task_queue s)
                          \<lparr>queue := queue (task_queue s) @ [(t, r - 1)],
                           unfinished_tasks := unfinished_tasks (task_queue s) + 1\<rparr>,
                        workers := (workers s)[w := Finishing t r False],
                        stdout := stdout s @ [''Retrying task...''],
                        calls := calls s @ [(t, r, RaisesException)]\<rparr>
                 else s\<lparr>workers := (workers s)[w := Finishing t r False],
                        calls := calls s @ [(t, r, RaisesException)]\<rparr>)
       \<and> run [Run w RaisesBaseException, Handle w] s = None
       \<and> run [Run w RaisesBaseException, TaskDone w] s =
           Some (s\<lparr>task_queue := (task_queue s)
                    \<lparr>unfinished_tasks := unfinished_tasks (task_queue s) - 1\<rparr>,
                  workers := (workers s)[w := Crashed],
                  calls := calls s @ [(t, r, RaisesBaseException)],
                  finished := finished s @ [t]\<rparr>)"
proof (intro conjI)
  show "run [Run w RaisesException, Handle w] s =
           Some (if 0 < r
                 then s\<lparr>task_queue := (task_queue s)
                          \<lparr>queue := queue (task_queue s) @ [(t, r - 1)],
                           unfinished_tasks := unfinished_tasks (task_queue s) + 1\<rparr>,
                        workers := (workers s)[w := Finishing t r False],
                        stdout := stdout s @ [''Retrying task...''],
                        calls := calls s @ [(t, r, RaisesException)]\<rparr>
                 else s\<lparr>workers := (workers s)[w := Finishing t r False],
                        calls := calls s @ [(t, r, RaisesException)]\<rparr>)"
    using assms by (rule exception_path)
  show "run [Run w RaisesBaseException, Handle w] s = None"
    using assms(2,3) by (simp add: worker_defs)
  show "run [Run w RaisesBaseException, TaskDone w] s =
           Some (s\<lparr>task_queue := (task_queue s)
                    \<lparr>unfinished_tasks := unfinished_tasks (task_queue s) - 1\<rparr>,
                  workers := (workers s)[w := Crashed],
                  calls := calls s @ [(t, r, RaisesBaseException)],
                  finished := finished s @ [t]\<rparr>)"
    using holding_unfinished [OF assms(1,2)] assms(2,3) by (simp add: worker_defs)
qed

theorem failure_path_witness:
  "reachable 1 [Submit 4 (Some 2), Check 0, Dequeue 0]
     \<lparr>task_queue = \<lparr>maxsize = 0, queue = [], unfinished_tasks = 1\<rparr>,
      workers = [Executing 4 2], running = True, stdout = [],
      calls = [], finished = []\<rparr>
   \<and> run [Run 0 RaisesException, Handle 0]
     \<lparr>task_queue = \<lparr>maxsize = 0, queue = [], unfinished_tasks = 1\<rparr>,
      workers = [Executing 4 2], running = True, stdout = [],
      calls = [], finished = []\<rparr>
     = Some
     \<lparr>task_queue = \<lparr>maxsize = 0, queue = [(4, 1)], unfinished_tasks = 2\<rparr>,
      workers = [Finishing 4 2 False], running = True, stdout = [''Retrying task...''],
      calls = [(4, 2, RaisesException)], finished = []\<rparr>
   \<and> run [Run 0 RaisesBaseException, TaskDone 0]
     \<lparr>task_queue = \<lparr>maxsize = 0, queue = [], unfinished_tasks = 1\<rparr>,
      workers = [Executing 4 2], running = True, stdout = [],
      calls = [], finished = []\<rparr>
     = Some
     \<lparr>task_queue = \<lparr>maxsize = 0, queue = [], unfinished_tasks = 0\<rparr>,
      workers = [Crashed], running = True, stdout = [],
      calls = [(4, 2, RaisesBaseException)], finished = [4]\<rparr>
   \<and> reachable 1 [Submit 4 (Some 0), Check 0, Dequeue 0]
     \<lparr>task_queue = \<lparr>maxsize = 0, queue = [], unfinished_tasks = 1\<rparr>,
      workers = [Executing 4 0], running = True, stdout = [],
      calls = [], finished = []\<rparr>
   \<and> run [Run 0 RaisesException, Handle 0]
     \<lparr>task_queue = \<lparr>maxsize = 0, queue = [], unfinished_tasks = 1\<rparr>,
      workers = [Executing 4 0], running = True, stdout = [],
      calls = [], finished = []\<rparr>
     = Some
     \<lparr>task_queue = \<lparr>maxsize = 0, queue = [], unfinished_tasks = 1\<rparr>,
      workers = [Finishing 4 0 False], running = True, stdout = [],
      calls = [(4, 0, RaisesException)], finished = []\<rparr>"
proof -
  have r2: "reachable 1 [Submit 4 (Some 2), Check 0, Dequeue 0]
     \<lparr>task_queue = \<lparr>maxsize = 0, queue = [], unfinished_tasks = 1\<rparr>,
      workers = [Executing 4 2], running = True, stdout = [],
      calls = [], finished = []\<rparr>"
    by (simp add: reachable_def init_def Queue_new_def worker_defs)
  have r0: "reachable 1 [Submit 4 (Some 0), Check 0, Dequeue 0]
     \<lparr>task_queue = \<lparr>maxsize = 0, queue = [], unfinished_tasks = 1\<rparr>,
      workers = [Executing 4 0], running = True, stdout = [],
      calls = [], finished = []\<rparr>"
    by (simp add: reachable_def init_def Queue_new_def worker_defs)
  show ?thesis
    using r2 r0 failure_path [OF r2, of 0 4 2] failure_path [OF r0, of 0 4 0] by simp
qed

text \<open>
  Claim C2 as stated promises the successor and the notice whenever an execution fails
  with retries left. With one worker and an item with retries 2 whose task raises a
  \<^verbatim>\<open>BaseException\<close> that is not an \<^verbatim>\<open>Exception\<close> (such as \<^verbatim>\<open>SystemExit\<close>): nothing is
  enqueued, nothing is printed, \<^verbatim>\<open>task_done()\<close> is called and the worker thread ends.
\<close>

theorem failure_without_retry_counterexample:
  "run [Submit 4 (Some 2), Check 0, Dequeue 0, Run 0 RaisesBaseException, TaskDone 0] (init 1)
     = Some
     \<lparr>task_queue = \<lparr>maxsize = 0, queue = [], unfinished_tasks = 0\<rparr>,
      workers = [Crashed], running = True, stdout = [],
      calls = [(4, 2, RaisesBaseException)], finished = [4]\<rparr>"
  by (simp add: init_def Queue_new_def worker_defs)

text \<open>
  Claim C5, amended. A worker holds a dequeued item and \<^verbatim>\<open>task()\<close> returns without raising.
  Whatever the item's retries, nothing is enqueued and nothing is printed, the \<^verbatim>\<open>except\<close>
  block is not entered, \<^verbatim>\<open>task_done()\<close> is called once (one unfinished item fewer), and
  the worker goes back to the loop condition: it polls again when the running flag is
  still set, and exits when \<^verbatim>\<open>shutdown\<close> has cleared it in the meantime.
\<close>

theorem success_path:
  assumes "reachable n es s" and "w < length (workers s)" and "workers s ! w = Executing t r"
  shows "run [Run w Returns, TaskDone w, Check w] s =
           Some (s\<lparr>task_queue := (task_queue s)
                    \<lparr>unfinished_tasks := unfinished_tasks (task_queue s) - 1\<rparr>,
                  workers := (workers s)[w := if running s then Polling else Exited],
                  calls := calls s @ [(t, r, Returns)],
                  finished := finished s @ [t]\<rparr>)
         \<and> run [Run w Returns, Handle w] s = None"
  using holding_unfinished [OF assms(1,2)] assms(2,3) by (simp add: worker_defs)

theorem success_path_witness:
  "reachable 2 [Submit 5 None, Check 1, Dequeue 1]
     \<lparr>task_queue = \<lparr>maxsize = 0, queue = [], unfinished_tasks = 1\<rparr>,
      workers = [LoopHead, Executing 5 3], running = True, stdout = [], calls = [],
      finished = []\<rparr>
   \<and> run [Run 1 Returns, TaskDone 1, Check 1]
     \<lparr>task_queue = \<lparr>maxsize = 0, queue = [], unfinished_tasks = 1\<rparr>,
      workers = [LoopHead, Executing 5 3], running = True, stdout = [], calls = [],
      finished = []\<rparr>
     = Some \<lparr>task_queue = \<lparr>maxsize = 0, queue = [], unfinished_tasks = 0\<rparr>,
        workers = [LoopHead, Polling], running = True, stdout = [],
        calls = [(5, 3, Returns)], finished = [5]\<rparr>"
proof -
  have r: "reachable 2 [Submit 5 None, Check 1, Dequeue 1]
     \<lparr>task_queue = \<lparr>maxsize = 0, queue = [], unfinished_tasks = 1\<rparr>,
      workers = [LoopHead, Executing 5 3], running = True, stdout = [], calls = [],
      finished = []\<rparr>"
    by (simp add: reachable_def init_def Queue_new_def worker_defs numeral_2_eq_2)
  show ?thesis using r success_path [OF r, of 1 5 3] by simp
qed

text \<open>
  Claim C5 as stated says that the worker returns to polling after a successful
  execution. With one worker: the item is dequeued, \<^verbatim>\<open>shutdown()\<close> runs while the task
  executes, the task returns, \<^verbatim>\<open>task_done()\<close> is called, and the loop condition, now false,
  makes the worker exit without polling.
\<close>

theorem success_then_exit_counterexample:
  "run [Submit 5 None, Check 0, Dequeue 0, Shutdown, Run 0 Returns, TaskDone 0, Check 0] (init 1)
     = Some \<lparr>task_queue = \<lparr>maxsize = 0, queue = [], unfinished_tasks = 0\<rparr>,
        workers = [Exited], running = False, stdout = [], calls = [(5, 3, Returns)],
        finished = [5]\<rparr>"
  by (simp add: init_def Queue_new_def worker_defs)

text \<open>
  Claim C6, amended. An \<^verbatim>\<open>Exception\<close> raised by \<^verbatim>\<open>task()\<close> is handled inside the worker:
  the worker runs the \<^verbatim>\<open>except\<close> block (the retry when \<^verbatim>\<open>retries > 0\<close>), calls
  \<^verbatim>\<open>task_done()\<close> and goes back to the loop condition, where it polls again if the
  running flag is still set and exits if it has been cleared. The worker does not crash,
  the other workers and the running flag are untouched, and nothing reaches the caller.
  (A \<^verbatim>\<open>BaseException\<close> that is not an \<^verbatim>\<open>Exception\<close> is not handled: see the
  counterexample.)
\<close>

theorem exception_recovered:
  assumes "reachable n es s" and "w < length (workers s)" and "workers s ! w = Executing t r"
  shows "run [Run w RaisesException, Handle w, TaskDone w, Check w] s =
           Some (s\<lparr>task_queue := (task_queue s)
                    \<lparr>queue := queue (task_queue s) @ (if 0 < r then [(t, r - 1)] else []),
                     unfinished_tasks :=
                       unfinished_tasks (task_queue s) - (if 0 < r then 0 else 1)\<rparr>,
                  workers := (workers s)[w := if running s then Polling else Exited],
                  stdout := stdout s @ (if 0 < r then [''Retrying task...''] else []),
                  calls := calls s @ [(t, r, RaisesException)],
                  finished := finished s @ [t]\<rparr>)"
  using holding_unfinished [OF assms(1,2)] reachable_shape [OF assms(1)] assms(2,3)
  by (simp add: worker_defs)

theorem exception_recovered_witness:
  "reachable 2 [Submit 6 (Some 1), Check 0, Dequeue 0]
     \<lparr>task_queue = \<lparr>maxsize = 0, queue = [], unfinished_tasks = 1\<rparr>,
      workers = [Executing 6 1, LoopHead], running = True, stdout = [], calls = [],
      finished = []\<rparr>
   \<and> run [Run 0 RaisesException, Handle 0, TaskDone 0, Check 0]
     \<lparr>task_queue = \<lparr>maxsize = 0, queue = [], unfinished_tasks = 1\<rparr>,
      workers = [Executing 6 1, LoopHead], running = True, stdout = [], calls = [],
      finished = []\<rparr>
     = Some \<lparr>task_queue = \<lparr>maxsize = 0, queue = [(6, 0)], unfinished_tasks = 1\<rparr>,
        workers = [Polling, LoopHead], running = True, stdout = [''Retrying task...''],
        calls = [(6, 1, RaisesException)], finished = [6]\<rparr>"
proof -
  have r: "reachable 2 [Submit 6 (Some 1), Check 0, Dequeue 0]
     \<lparr>task_queue = \<lparr>maxsize = 0, queue = [], unfinished_tasks = 1\<rparr>,
      workers = [Executing 6 1, LoopHead], running = True, stdout = [], calls = [],
      finished = []\<rparr>"
    by (simp add: reachable_def init_def Queue_new_def worker_defs numeral_2_eq_2)
  show ?thesis using r exception_recovered [OF r, of 0 6 1] by simp
qed

text \<open>
  Claim C6 as stated covers any exception or error and has the worker continue polling.
  First execution: the task raises a \<^verbatim>\<open>BaseException\<close> that is not an \<^verbatim>\<open>Exception\<close>
  (such as \<^verbatim>\<open>SystemExit\<close>); \<^verbatim>\<open>except Exception\<close> does not catch it, \<^verbatim>\<open>task_done()\<close> runs in
  the \<^verbatim>\<open>finally\<close> block and the exception ends the worker thread. Second execution: the
  task raises an \<^verbatim>\<open>Exception\<close> after \<^verbatim>\<open>shutdown()\<close> has cleared the flag; the worker
  handles it and then exits at the loop condition instead of polling.
\<close>

theorem base_exception_counterexample:
  "run [Submit 6 None, Check 0, Dequeue 0, Run 0 RaisesBaseException, TaskDone 0] (init 1)
     = Some \<lparr>task_queue = \<lparr>maxsize = 0, queue = [], unfinished_tasks = 0\<rparr>,
        workers = [Crashed], running = True, stdout = [],
        calls = [(6, 3, RaisesBaseException)], finished = [6]\<rparr>
   \<and> run [Submit 6 (Some 0), Check 0, Dequeue 0, Shutdown, Run 0 RaisesException, Handle 0,
          TaskDone 0, Check 0] (init 1)
     = Some \<lparr>task_queue = \<lparr>maxsize = 0, queue = [], unfinished_tasks = 0\<rparr>,
        workers = [Exited], running = False, stdout = [],
        calls = [(6, 0, RaisesException)], finished = [6]\<rparr>"
  by (simp add: init_def Queue_new_def worker_defs)

lemma handling_before_task_done:
  assumes "reachable n es s"
  shows "(w < length (workers s) \<and> workers s ! w = Handling t r \<and> 0 < r \<longrightarrow>
            step (TaskDone w) s = None \<and>
            1 \<le> unfinished_tasks (task_queue s) \<and>
            step (Handle w) s =
              Some (s\<lparr>task_queue := (task_queue s)
                       \<lparr>queue := queue (task_queue s) @ [(t, r - 1)],
                        unfinished_tasks := unfinished_tasks (task_queue s) + 1\<rparr>,
                     workers := (workers s)[w := Finishing t r False],
                     stdout := stdout s @ [''Retrying task...'']\<rparr>) \<and>
            run [Handle w, TaskDone w] s =
              Some (s\<lparr>task_queue := (task_queue s)
                       \<lparr>queue := queue (task_queue s) @ [(t, r - 1)]\<rparr>,
                     workers := (workers s)[w := LoopHead],
                     stdout := stdout s @ [''Retrying task...''],
                     finished := finished s @ [t]\<rparr>))
       \<and> (step Join s \<noteq> None \<longrightarrow>
            queue (task_queue s) = [] \<and> (\<forall>p \<in> set (workers s). \<not> holds p))"
proof (intro conjI impI)
  assume h: "w < length (workers s) \<and> workers s ! w = Handling t r \<and> 0 < r"
  then have u: "1 \<le> unfinished_tasks (task_queue s)"
    using holding_unfinished [OF assms, of w] by simp
  show "step (TaskDone w) s = None" using h by (simp add: worker_defs)
  show "1 \<le> unfinished_tasks (task_queue s)" by (rule u)
  show "step (Handle w) s =
              Some (s\<lparr>task_queue := (task_queue s)
                       \<lparr>queue := queue (task_queue s) @ [(t, r - 1)],
                        unfinished_tasks := unfinished_tasks (task_queue s) + 1\<rparr>,
                     workers := (workers s)[w := Finishing t r False],
                     stdout := stdout s @ [''Retrying task...'']\<rparr>)"
    using h reachable_shape [OF assms] by (simp add: worker_defs)
  show "run [Handle w, TaskDone w] s =
              Some (s\<lparr>task_queue := (task_queue s)
                       \<lparr>queue := queue (task_queue s) @ [(t, r - 1)]\<rparr>,
                     workers := (workers s)[w := LoopHead],
                     stdout := stdout s @ [''Retrying task...''],
                     finished := finished s @ [t]\<rparr>)"
    using h u reachable_shape [OF assms] by (simp add: worker_defs)
next
  assume "step Join s \<noteq> None"
  then have "unfinished_tasks (task_queue s) = 0"
    by (simp add: join_returns_def split: if_splits)
  then have z: "int (length (queue (task_queue s))) + in_flight s = 0"
    using reachable_unfinished [OF assms] by simp
  have "int (length (queue (task_queue s))) = 0 \<and> in_flight s = 0"
    using z in_flight_nonneg [of s] by linarith
  then have q: "queue (task_queue s) = []" and f: "in_flight s = 0"
    by simp_all
  show "queue (task_queue s) = []" by (rule q)
  show "\<forall>p \<in> set (workers s). \<not> holds p" using in_flight_zero [OF f] by blast
qed

section \<open>How a worker leaves its loop\<close>

lemma last_own_snoc:
  "last_own w (es @ [e]) = (if worker_of e = Some w then Some e else last_own w es)"
  by (simp add: last_own_def Let_def)

lemma step_other_worker:
  assumes "step e s = Some s'" "worker_of e \<noteq> Some w"
  shows "workers s' ! w = workers s ! w"
  using assms
  by (cases e) (auto simp: worker_defs Let_def split: if_splits pc.splits sum.splits option.splits list.splits outcome.splits)

lemma step_to_loop_head:
  assumes "step e s = Some s'" "worker_of e = Some w" "workers s' ! w = LoopHead"
  shows "e = Timeout w \<or> e = TaskDone w"
  using assms
  by (cases e) (auto simp: worker_defs Let_def split: if_splits pc.splits sum.splits option.splits list.splits outcome.splits)

lemma loop_head_last_own:
  assumes "reachable n es s" "w < n"
  shows "workers s ! w = LoopHead \<longrightarrow> last_own w es \<in> {None, Some (Timeout w), Some (TaskDone w)}"
  using assms(1)
proof (induction rule: reachable_induct)
  case init
  then show ?case by (simp add: last_own_def)
next
  case (step es s e s')
  show ?case
  proof (cases "worker_of e = Some w")
    case True
    then show ?thesis using step_to_loop_head [OF step.hyps(2) True] by (auto simp: last_own_snoc)
  next
    case False
    then show ?thesis using step_other_worker [OF step.hyps(2) False] step.IH
      by (simp add: last_own_snoc)
  qed
qed

lemma step_to_exited:
  assumes "step e s = Some s'" "w < length (workers s)" "workers s ! w \<noteq> Exited" "workers s' ! w = Exited"
  shows "e = Check w \<and> workers s ! w = LoopHead \<and> \<not> running s"
proof (cases "worker_of e = Some w")
  case True
  then show ?thesis using assms
    by (cases e) (auto simp: worker_defs Let_def split: if_splits pc.splits sum.splits option.splits list.splits outcome.splits)
next
  case False
  then show ?thesis using step_other_worker [OF assms(1) False] assms(3,4) by simp
qed

lemma step_to_crashed:
  assumes "step e s = Some s'" "w < length (workers s)" "workers s ! w \<noteq> Crashed"
    "workers s' ! w = Crashed" "holds (workers s ! w) \<longrightarrow> 1 \<le> unfinished_tasks (task_queue s)"
  shows "e = TaskDone w \<and> (\<exists>t r. workers s ! w = Finishing t r True)"
proof (cases "worker_of e = Some w")
  case True
  then show ?thesis using assms
    by (cases e) (auto simp: worker_defs Let_def split: if_splits pc.splits sum.splits option.splits list.splits outcome.splits)
next
  case False
  then show ?thesis using step_other_worker [OF assms(1) False] assms(3,4) by simp
qed

lemma terminal_no_step:
  assumes "workers s ! w = Exited \<or> workers s ! w = Crashed" "worker_of e = Some w"
  shows "step e s = None"
  using assms by (cases e) (auto simp: worker_defs)

text \<open>
  Claim C3, amended. A worker thread starts at the loop condition \<^verbatim>\<open>while self.running\<close>
  and comes back to it after every dequeue attempt that timed out and after
  \<^verbatim>\<open>task_done()\<close> for every item whose task returned or raised an \<^verbatim>\<open>Exception\<close>. At the
  loop condition it polls again when the running flag is set and reaches its terminal
  state \<open>Exited\<close> when the flag is false; it reaches \<open>Exited\<close> in no other way, and its last
  own step before the exit is none, a timeout or \<^verbatim>\<open>task_done()\<close>. So the worker may exit
  right after completing an item, without a further dequeue attempt. The only other way
  out of the loop is a task that raises a \<^verbatim>\<open>BaseException\<close> which is not an
  \<^verbatim>\<open>Exception\<close>: after \<^verbatim>\<open>task_done()\<close> the thread ends without evaluating the loop
  condition, whatever the flag. A worker that has exited or ended takes no further step.
\<close>

theorem exit_only_at_loop_condition:
  assumes "reachable n es s" and "w < n"
  shows "workers (init n) ! w = LoopHead
       \<and> (workers s ! w = LoopHead \<longrightarrow>
            step (Check w) s =
              Some (s\<lparr>workers := (workers s)[w := if running s then Polling else Exited]\<rparr>))
       \<and> (workers s ! w = Polling \<and> queue (task_queue s) = [] \<longrightarrow>
            step (Timeout w) s = Some (s\<lparr>workers := (workers s)[w := LoopHead]\<rparr>)
            \<and> step (Dequeue w) s = None)
       \<and> (workers s ! w = Finishing t r p \<longrightarrow>
            step (TaskDone w) s =
              Some (s\<lparr>task_queue := (task_queue s)
                       \<lparr>unfinished_tasks := unfinished_tasks (task_queue s) - 1\<rparr>,
                     workers := (workers s)[w := if p then Crashed else LoopHead],
                     finished := finished s @ [t]\<rparr>))
       \<and> (step e s = Some s' \<and> workers s ! w \<noteq> Exited \<and> workers s' ! w = Exited \<longrightarrow>
            e = Check w \<and> workers s ! w = LoopHead \<and> \<not> running s \<and>
            last_own w es \<in> {None, Some (Timeout w), Some (TaskDone w)})
       \<and> (step e s = Some s' \<and> workers s ! w \<noteq> Crashed \<and> workers s' ! w = Crashed \<longrightarrow>
            e = TaskDone w \<and> (\<exists>t r. workers s ! w = Finishing t r True))
       \<and> ((workers s ! w = Exited \<or> workers s ! w = Crashed) \<and> worker_of e = Some w \<longrightarrow>
            step e s = None)"
proof -
  have len: "w < length (workers s)" using reachable_shape [OF assms(1)] assms(2) by simp
  have u: "holds (workers s ! w) \<longrightarrow> 1 \<le> unfinished_tasks (task_queue s)"
    using holding_unfinished [OF assms(1) len] by simp
  have c0: "workers (init n) ! w = LoopHead" using assms(2) by (simp add: init_def)
  have c1: "workers s ! w = LoopHead \<longrightarrow>
            step (Check w) s =
              Some (s\<lparr>workers := (workers s)[w := if running s then Polling else Exited]\<rparr>)"
    using len by (simp add: worker_defs)
  have c2: "workers s ! w = Polling \<and> queue (task_queue s) = [] \<longrightarrow>
            step (Timeout w) s = Some (s\<lparr>workers := (workers s)[w := LoopHead]\<rparr>)
            \<and> step (Dequeue w) s = None"
    using len by (simp add: worker_defs)
  have c3: "workers s ! w = Finishing t r p \<longrightarrow>
            step (TaskDone w) s =
              Some (s\<lparr>task_queue := (task_queue s)
                       \<lparr>unfinished_tasks := unfinished_tasks (task_queue s) - 1\<rparr>,
                     workers := (workers s)[w := if p then Crashed else LoopHead],
                     finished := finished s @ [t]\<rparr>)"
    using len u by (auto simp: worker_defs)
  have c4: "step e s = Some s' \<and> workers s ! w \<noteq> Exited \<and> workers s' ! w = Exited \<longrightarrow>
            e = Check w \<and> workers s ! w = LoopHead \<and> \<not> running s \<and>
            last_own w es \<in> {None, Some (Timeout w), Some (TaskDone w)}"
  proof (intro impI, elim conjE)
    assume h: "step e s = Some s'" "workers s ! w \<noteq> Exited" "workers s' ! w = Exited"
    have a: "e = Check w \<and> workers s ! w = LoopHead \<and> \<not> running s"
      using step_to_exited [OF h(1) len h(2,3)] .
    then show "e = Check w \<and> workers s ! w = LoopHead \<and> \<not> running s \<and>
            last_own w es \<in> {None, Some (Timeout w), Some (TaskDone w)}"
      using loop_head_last_own [OF assms] by simp
  qed
  have c5: "step e s = Some s' \<and> workers s ! w \<noteq> Crashed \<and> workers s' ! w = Crashed \<longrightarrow>
            e = TaskDone w \<and> (\<exists>t r. workers s ! w = Finishing t r True)"
    using step_to_crashed [of e s s' w] len u by blast
  have c6: "(workers s ! w = Exited \<or> workers s ! w = Crashed) \<and> worker_of e = Some w \<longrightarrow>
            step e s = None"
    using terminal_no_step [of s w e] by blast
  show ?thesis using c0 c1 c2 c3 c4 c5 c6 by blast
qed


theorem exit_only_at_loop_condition_witness:
  "reachable 1 [Submit 3 None, Check 0, Dequeue 0, Shutdown, Run 0 Returns, TaskDone 0]
     \<lparr>task_queue = \<lparr>maxsize = 0, queue = [], unfinished_tasks = 0\<rparr>, workers = [LoopHead],
      running = False, stdout = [], calls = [(3, 3, Returns)], finished = [3]\<rparr>
   \<and> step (Check 0)
     \<lparr>task_queue = \<lparr>maxsize = 0, queue = [], unfinished_tasks = 0\<rparr>, workers = [LoopHead],
      running = False, stdout = [], calls = [(3, 3, Returns)], finished = [3]\<rparr>
     = Some
     \<lparr>task_queue = \<lparr>maxsize = 0, queue = [], unfinished_tasks = 0\<rparr>, workers = [Exited],
      running = False, stdout = [], calls = [(3, 3, Returns)], finished = [3]\<rparr>
   \<and> last_own 0 [Submit 3 None, Check 0, Dequeue 0, Shutdown, Run 0 Returns, TaskDone 0] = Some (TaskDone 0)
   \<and> reachable 1 [Check 0]
     \<lparr>task_queue = \<lparr>maxsize = 0, queue = [], unfinished_tasks = 0\<rparr>, workers = [Polling],
      running = True, stdout = [], calls = [], finished = []\<rparr>
   \<and> step (Timeout 0)
     \<lparr>task_queue = \<lparr>maxsize = 0, queue = [], unfinished_tasks = 0\<rparr>, workers = [Polling],
      running = True, stdout = [], calls = [], finished = []\<rparr>
     = Some
     \<lparr>task_queue = \<lparr>maxsize = 0, queue = [], unfinished_tasks = 0\<rparr>, workers = [LoopHead],
      running = True, stdout = [], calls = [], finished = []\<rparr>
   \<and> reachable 1 [Submit 3 None, Check 0, Dequeue 0, Run 0 RaisesBaseException]
     \<lparr>task_queue = \<lparr>maxsize = 0, queue = [], unfinished_tasks = 1\<rparr>, workers = [Finishing 3 3 True],
      running = True, stdout = [], calls = [(3, 3, RaisesBaseException)], finished = []\<rparr>
   \<and> step (TaskDone 0)
     \<lparr>task_queue = \<lparr>maxsize = 0, queue = [], unfinished_tasks = 1\<rparr>, workers = [Finishing 3 3 True],
      running = True, stdout = [], calls = [(3, 3, RaisesBaseException)], finished = []\<rparr>
     = Some
     \<lparr>task_queue = \<lparr>maxsize = 0, queue = [], unfinished_tasks = 0\<rparr>, workers = [Crashed],
      running = True, stdout = [], calls = [(3, 3, RaisesBaseException)], finished = [3]\<rparr>
   \<and> reachable 1 [Submit 3 None, Check 0, Dequeue 0, Run 0 RaisesBaseException, TaskDone 0]
     \<lparr>task_queue = \<lparr>maxsize = 0, queue = [], unfinished_tasks = 0\<rparr>, workers = [Crashed],
      running = True, stdout = [], calls = [(3, 3, RaisesBaseException)], finished = [3]\<rparr>
   \<and> step (Check 0)
     \<lparr>task_queue = \<lparr>maxsize = 0, queue = [], unfinished_tasks = 0\<rparr>, workers = [Crashed],
      running = True, stdout = [], calls = [(3, 3, RaisesBaseException)], finished = [3]\<rparr> = None"
proof -
  have r1: "reachable 1 [Submit 3 None, Check 0, Dequeue 0, Shutdown, Run 0 Returns, TaskDone 0]
     \<lparr>task_queue = \<lparr>maxsize = 0, queue = [], unfinished_tasks = 0\<rparr>, workers = [LoopHead],
      running = False, stdout = [], calls = [(3, 3, Returns)], finished = [3]\<rparr>"
    by (simp add: reachable_def init_def Queue_new_def worker_defs)
  have st1: "step (Check 0)
     \<lparr>task_queue = \<lparr>maxsize = 0, queue = [], unfinished_tasks = 0\<rparr>, workers = [LoopHead],
      running = False, stdout = [], calls = [(3, 3, Returns)], finished = [3]\<rparr>
     = Some
     \<lparr>task_queue = \<lparr>maxsize = 0, queue = [], unfinished_tasks = 0\<rparr>, workers = [Exited],
      running = False, stdout = [], calls = [(3, 3, Returns)], finished = [3]\<rparr>"
    by (simp add: worker_defs)
  have r2: "reachable 1 [Check 0]
     \<lparr>task_queue = \<lparr>maxsize = 0, queue = [], unfinished_tasks = 0\<rparr>, workers = [Polling],
      running = True, stdout = [], calls = [], finished = []\<rparr>"
    by (simp add: reachable_def init_def Queue_new_def worker_defs)
  have r3: "reachable 1 [Submit 3 None, Check 0, Dequeue 0, Run 0 RaisesBaseException]
     \<lparr>task_queue = \<lparr>maxsize = 0, queue = [], unfinished_tasks = 1\<rparr>, workers = [Finishing 3 3 True],
      running = True, stdout = [], calls = [(3, 3, RaisesBaseException)], finished = []\<rparr>"
    by (simp add: reachable_def init_def Queue_new_def worker_defs)
  have r4: "reachable 1 [Submit 3 None, Check 0, Dequeue 0, Run 0 RaisesBaseException, TaskDone 0]
     \<lparr>task_queue = \<lparr>maxsize = 0, queue = [], unfinished_tasks = 0\<rparr>, workers = [Crashed],
      running = True, stdout = [], calls = [(3, 3, RaisesBaseException)], finished = [3]\<rparr>"
    by (simp add: reachable_def init_def Queue_new_def worker_defs)
  have lt: "(0::nat) < 1" by simp
  note t1 = exit_only_at_loop_condition [OF r1 lt, of 3 3 True "Check 0"
        "\<lparr>task_queue = \<lparr>maxsize = 0, queue = [], unfinished_tasks = 0\<rparr>, workers = [Exited],
      running = False, stdout = [], calls = [(3, 3, Returns)], finished = [3]\<rparr>"]
  note t2 = exit_only_at_loop_condition [OF r2 lt, of 3 3 True "Check 0"
        "\<lparr>task_queue = \<lparr>maxsize = 0, queue = [], unfinished_tasks = 0\<rparr>, workers = [Polling],
      running = True, stdout = [], calls = [], finished = []\<rparr>"]
  note t3 = exit_only_at_loop_condition [OF r3 lt, of 3 3 True "TaskDone 0"
        "\<lparr>task_queue = \<lparr>maxsize = 0, queue = [], unfinished_tasks = 0\<rparr>, workers = [Crashed],
      running = True, stdout = [], calls = [(3, 3, RaisesBaseException)], finished = [3]\<rparr>"]
  note t4 = exit_only_at_loop_condition [OF r4 lt, of 3 3 True "Check 0"
        "\<lparr>task_queue = \<lparr>maxsize = 0, queue = [], unfinished_tasks = 0\<rparr>, workers = [Crashed],
      running = True, stdout = [], calls = [(3, 3, RaisesBaseException)], finished = [3]\<rparr>"]
  have st3: "step (TaskDone 0)
     \<lparr>task_queue = \<lparr>maxsize = 0, queue = [], unfinished_tasks = 1\<rparr>, workers = [Finishing 3 3 True],
      running = True, stdout = [], calls = [(3, 3, RaisesBaseException)], finished = []\<rparr>
     = Some
     \<lparr>task_queue = \<lparr>maxsize = 0, queue = [], unfinished_tasks = 0\<rparr>, workers = [Crashed],
      running = True, stdout = [], calls = [(3, 3, RaisesBaseException)], finished = [3]\<rparr>"
    using t3 [THEN conjunct2, THEN conjunct2, THEN conjunct2, THEN conjunct1] by simp
  have l: "last_own 0 [Submit 3 None, Check 0, Dequeue 0, Shutdown, Run 0 Returns, TaskDone 0]
             \<in> {None, Some (Timeout 0), Some (TaskDone 0)}"
    using t1 [THEN conjunct2, THEN conjunct2, THEN conjunct2, THEN conjunct2, THEN conjunct1] st1
    by simp
  then have l': "last_own 0 [Submit 3 None, Check 0, Dequeue 0, Shutdown, Run 0 Returns, TaskDone 0]
             = Some (TaskDone 0)"
    by (simp add: last_own_def)
  have st2: "step (Timeout 0)
     \<lparr>task_queue = \<lparr>maxsize = 0, queue = [], unfinished_tasks = 0\<rparr>, workers = [Polling],
      running = True, stdout = [], calls = [], finished = []\<rparr>
     = Some
     (\<lparr>task_queue = \<lparr>maxsize = 0, queue = [], unfinished_tasks = 0\<rparr>, workers = [Polling],
      running = True, stdout = [], calls = [], finished = []\<rparr>\<lparr>workers := [LoopHead]\<rparr>)"
    using t2 [THEN conjunct2, THEN conjunct2, THEN conjunct1] by simp
  have st4: "step (Check 0)
     \<lparr>task_queue = \<lparr>maxsize = 0, queue = [], unfinished_tasks = 0\<rparr>, workers = [Crashed],
      running = True, stdout = [], calls = [(3, 3, RaisesBaseException)], finished = [3]\<rparr> = None"
    using t4 [THEN conjunct2, THEN conjunct2, THEN conjunct2, THEN conjunct2, THEN conjunct2,
              THEN conjunct2] by simp
  show ?thesis
    using r1 st1 l' r2 st2 r3 st3 r4 st4 by simp
qed

text \<open>
  Claim C3 as stated says that a worker exits only when a dequeue attempt times out while
  the flag is false, never right after an item. With one worker: the item is dequeued,
  its task fails, \<^verbatim>\<open>shutdown()\<close> clears the flag, the worker finishes the item and exits at
  the loop condition. Its last step before the exit is \<^verbatim>\<open>task_done()\<close>, and no dequeue
  attempt of this worker ever timed out.
\<close>

theorem exit_without_timeout_counterexample:
  "run [Submit 2 (Some 0), Check 0, Dequeue 0, Run 0 RaisesException, Shutdown, Handle 0,
        TaskDone 0, Check 0] (init 1)
     = Some \<lparr>task_queue = \<lparr>maxsize = 0, queue = [], unfinished_tasks = 0\<rparr>,
        workers = [Exited], running = False, stdout = [],
        calls = [(2, 0, RaisesException)], finished = [2]\<rparr>
   \<and> last_own 0 [Submit 2 (Some 0), Check 0, Dequeue 0, Run 0 RaisesException, Shutdown,
                  Handle 0, TaskDone 0] = Some (TaskDone 0)
   \<and> count_list [Submit 2 (Some 0), Check 0, Dequeue 0, Run 0 RaisesException, Shutdown,
                  Handle 0, TaskDone 0, Check 0] (Timeout 0) = 0"
  by (simp add: init_def Queue_new_def worker_defs last_own_def)

section \<open>Retries and join\<close>

lemma step_to_handling:
  assumes "step e s = Some s'" "worker_of e = Some w" "workers s' ! w = Handling t r"
  shows "e = Run w RaisesException"
  using assms
  by (cases e) (auto simp: worker_defs Let_def split: if_splits pc.splits sum.splits option.splits list.splits outcome.splits)

lemma handling_last_own:
  assumes "reachable n es s" "w < n"
  shows "workers s ! w = Handling t r \<longrightarrow> last_own w es = Some (Run w RaisesException)"
  using assms(1)
proof (induction rule: reachable_induct)
  case init
  then show ?case using assms(2) by (simp add: init_def)
next
  case (step es s e s')
  show ?case
  proof (cases "worker_of e = Some w")
    case True
    then show ?thesis using step_to_handling [OF step.hyps(2) True] by (auto simp: last_own_snoc)
  next
    case False
    then show ?thesis using step_other_worker [OF step.hyps(2) False] step.IH
      by (simp add: last_own_snoc)
  qed
qed

text \<open>
  Claim C9, amended. A worker is in the \<^verbatim>\<open>except\<close> block only right after its call of
  \<^verbatim>\<open>task()\<close> raised an \<^verbatim>\<open>Exception\<close>. After such a failure with \<^verbatim>\<open>retries > 0\<close> the
  worker cannot call \<^verbatim>\<open>task_done()\<close> yet; its next step enqueues the successor
  \<^verbatim>\<open>(task, retries - 1)\<close>, and only then does \<^verbatim>\<open>task_done()\<close> run, leaving the successor in
  the queue and the counter of unfinished items where it was, at 1 or more. In every
  reachable state the counter is zero, and \<^verbatim>\<open>join()\<close> can return, only when the queue is
  empty and no worker holds an item: every retry enqueued so far has been processed. A
  call that raises a \<^verbatim>\<open>BaseException\<close> that is not an \<^verbatim>\<open>Exception\<close> triggers no retry:
  \<^verbatim>\<open>task_done()\<close> runs with no successor enqueued.
\<close>

theorem successor_before_task_done:
  assumes "reachable n es s"
  shows "(w < length (workers s) \<and> workers s ! w = Handling t r \<and> 0 < r \<longrightarrow>
            step (TaskDone w) s = None \<and>
            1 \<le> unfinished_tasks (task_queue s) \<and>
            step (Handle w) s =
              Some (s\<lparr>task_queue := (task_queue s)
                       \<lparr>queue := queue (task_queue s) @ [(t, r - 1)],
                        unfinished_tasks := unfinished_tasks (task_queue s) + 1\<rparr>,
                     workers := (workers s)[w := Finishing t r False],
                     stdout := stdout s @ [''Retrying task...'']\<rparr>) \<and>
            run [Handle w, TaskDone w] s =
              Some (s\<lparr>task_queue := (task_queue s)
                       \<lparr>queue := queue (task_queue s) @ [(t, r - 1)]\<rparr>,
                     workers := (workers s)[w := LoopHead],
                     stdout := stdout s @ [''Retrying task...''],
                     finished := finished s @ [t]\<rparr>))
       \<and> (step Join s \<noteq> None \<longrightarrow>
            queue (task_queue s) = [] \<and> (\<forall>p \<in> set (workers s). \<not> holds p))
       \<and> (w < length (workers s) \<and> workers s ! w = Executing t r \<and> 0 < r \<longrightarrow>
            run [Run w RaisesException, TaskDone w] s = None \<and>
            run [Run w RaisesException, Handle w] s =
              Some (s\<lparr>task_queue := (task_queue s)
                       \<lparr>queue := queue (task_queue s) @ [(t, r - 1)],
                        unfinished_tasks := unfinished_tasks (task_queue s) + 1\<rparr>,
                     workers := (workers s)[w := Finishing t r False],
                     stdout := stdout s @ [''Retrying task...''],
                     calls := calls s @ [(t, r, RaisesException)]\<rparr>) \<and>
            run [Run w RaisesException, Handle w, TaskDone w] s =
              Some (s\<lparr>task_queue := (task_queue s)
                       \<lparr>queue := queue (task_queue s) @ [(t, r - 1)]\<rparr>,
                     workers := (workers s)[w := LoopHead],
                     stdout := stdout s @ [''Retrying task...''],
                     calls := calls s @ [(t, r, RaisesException)],
                     finished := finished s @ [t]\<rparr>) \<and>
            run [Run w RaisesBaseException, TaskDone w] s =
              Some (s\<lparr>task_queue := (task_queue s)
                       \<lparr>unfinished_tasks := unfinished_tasks (task_queue s) - 1\<rparr>,
                     workers := (workers s)[w := Crashed],
                     calls := calls s @ [(t, r, RaisesBaseException)],
                     finished := finished s @ [t]\<rparr>))
       \<and> (w < length (workers s) \<and> workers s ! w = Handling t r \<longrightarrow>
            last_own w es = Some (Run w RaisesException))"
proof -
  have old: "(w < length (workers s) \<and> workers s ! w = Handling t r \<and> 0 < r \<longrightarrow>
            step (TaskDone w) s = None \<and>
            1 \<le> unfinished_tasks (task_queue s) \<and>
            step (Handle w) s =
              Some (s\<lparr>task_queue := (task_queue s)
                       \<lparr>queue := queue (task_queue s) @ [(t, r - 1)],
                        unfinished_tasks := unfinished_tasks (task_queue s) + 1\<rparr>,
                     workers := (workers s)[w := Finishing t r False],
                     stdout := stdout s @ [''Retrying task...'']\<rparr>) \<and>
            run [Handle w, TaskDone w] s =
              Some (s\<lparr>task_queue := (task_queue s)
                       \<lparr>queue := queue (task_queue s) @ [(t, r - 1)]\<rparr>,
                     workers := (workers s)[w := LoopHead],
                     stdout := stdout s @ [''Retrying task...''],
                     finished := finished s @ [t]\<rparr>))
       \<and> (step Join s \<noteq> None \<longrightarrow>
            queue (task_queue s) = [] \<and> (\<forall>p \<in> set (workers s). \<not> holds p))"
    using assms by (rule handling_before_task_done)
  have m: "maxsize (task_queue s) = 0" and len: "length (workers s) = n"
    using reachable_shape [OF assms] by simp_all
  have c3: "(w < length (workers s) \<and> workers s ! w = Executing t r \<and> 0 < r \<longrightarrow>
            run [Run w RaisesException, TaskDone w] s = None \<and>
            run [Run w RaisesException, Handle w] s =
              Some (s\<lparr>task_queue := (task_queue s)
                       \<lparr>queue := queue (task_queue s) @ [(t, r - 1)],
                        unfinished_tasks := unfinished_tasks (task_queue s) + 1\<rparr>,
                     workers := (workers s)[w := Finishing t r False],
                     stdout := stdout s @ [''Retrying task...''],
                     calls := calls s @ [(t, r, RaisesException)]\<rparr>) \<and>
            run [Run w RaisesException, Handle w, TaskDone w] s =
              Some (s\<lparr>task_queue := (task_queue s)
                       \<lparr>queue := queue (task_queue s) @ [(t, r - 1)]\<rparr>,
                     workers := (workers s)[w := LoopHead],
                     stdout := stdout s @ [''Retrying task...''],
                     calls := calls s @ [(t, r, RaisesException)],
                     finished := finished s @ [t]\<rparr>) \<and>
            run [Run w RaisesBaseException, TaskDone w] s =
              Some (s\<lparr>task_queue := (task_queue s)
                       \<lparr>unfinished_tasks := unfinished_tasks (task_queue s) - 1\<rparr>,
                     workers := (workers s)[w := Crashed],
                     calls := calls s @ [(t, r, RaisesBaseException)],
                     finished := finished s @ [t]\<rparr>))"
  proof (intro impI, elim conjE)
    assume h: "w < length (workers s)" "workers s ! w = Executing t r" "0 < r"
    have u: "1 \<le> unfinished_tasks (task_queue s)"
      using holding_unfinished [OF assms h(1)] h(2) by simp
    show "run [Run w RaisesException, TaskDone w] s = None \<and>
            run [Run w RaisesException, Handle w] s =
              Some (s\<lparr>task_queue := (task_queue s)
                       \<lparr>queue := queue (task_queue s) @ [(t, r - 1)],
                        unfinished_tasks := unfinished_tasks (task_queue s) + 1\<rparr>,
                     workers := (workers s)[w := Finishing t r False],
                     stdout := stdout s @ [''Retrying task...''],
                     calls := calls s @ [(t, r, RaisesException)]\<rparr>) \<and>
            run [Run w RaisesException, Handle w, TaskDone w] s =
              Some (s\<lparr>task_queue := (task_queue s)
                       \<lparr>queue := queue (task_queue s) @ [(t, r - 1)]\<rparr>,
                     workers := (workers s)[w := LoopHead],
                     stdout := stdout s @ [''Retrying task...''],
                     calls := calls s @ [(t, r, RaisesException)],
                     finished := finished s @ [t]\<rparr>) \<and>
            run [Run w RaisesBaseException, TaskDone w] s =
              Some (s\<lparr>task_queue := (task_queue s)
                       \<lparr>unfinished_tasks := unfinished_tasks (task_queue s) - 1\<rparr>,
                     workers := (workers s)[w := Crashed],
                     calls := calls s @ [(t, r, RaisesBaseException)],
                     finished := finished s @ [t]\<rparr>)"
      using h u m by (simp add: worker_defs)
  qed
  have c4: "(w < length (workers s) \<and> workers s ! w = Handling t r \<longrightarrow>
            last_own w es = Some (Run w RaisesException))"
    using handling_last_own [OF assms, of w t r] len by simp
  show ?thesis using old c3 c4 by blast
qed

theorem successor_before_task_done_witness:
  "reachable 1 [Submit 4 (Some 2), Check 0, Dequeue 0, Run 0 RaisesException]
     \<lparr>task_queue = \<lparr>maxsize = 0, queue = [], unfinished_tasks = 1\<rparr>,
      workers = [Handling 4 2], running = True, stdout = [],
      calls = [(4, 2, RaisesException)], finished = []\<rparr>
   \<and> step (TaskDone 0)
     \<lparr>task_queue = \<lparr>maxsize = 0, queue = [], unfinished_tasks = 1\<rparr>,
      workers = [Handling 4 2], running = True, stdout = [],
      calls = [(4, 2, RaisesException)], finished = []\<rparr> = None
   \<and> run [Handle 0, TaskDone 0]
     \<lparr>task_queue = \<lparr>maxsize = 0, queue = [], unfinished_tasks = 1\<rparr>,
      workers = [Handling 4 2], running = True, stdout = [],
      calls = [(4, 2, RaisesException)], finished = []\<rparr>
     = Some
     \<lparr>task_queue = \<lparr>maxsize = 0, queue = [(4, 1)], unfinished_tasks = 1\<rparr>,
      workers = [LoopHead], running = True, stdout = [''Retrying task...''],
      calls = [(4, 2, RaisesException)], finished = [4]\<rparr>
   \<and> last_own 0 [Submit 4 (Some 2), Check 0, Dequeue 0, Run 0 RaisesException] = Some (Run 0 RaisesException)
   \<and> reachable 1 [Submit 5 (Some 1), Check 0, Dequeue 0]
     \<lparr>task_queue = \<lparr>maxsize = 0, queue = [], unfinished_tasks = 1\<rparr>,
      workers = [Executing 5 1], running = True, stdout = [],
      calls = [], finished = []\<rparr>
   \<and> run [Run 0 RaisesException, TaskDone 0]
     \<lparr>task_queue = \<lparr>maxsize = 0, queue = [], unfinished_tasks = 1\<rparr>,
      workers = [Executing 5 1], running = True, stdout = [],
      calls = [], finished = []\<rparr> = None
   \<and> run [Run 0 RaisesException, Handle 0, TaskDone 0]
     \<lparr>task_queue = \<lparr>maxsize = 0, queue = [], unfinished_tasks = 1\<rparr>,
      workers = [Executing 5 1], running = True, stdout = [],
      calls = [], finished = []\<rparr>
     = Some
     \<lparr>task_queue = \<lparr>maxsize = 0, queue = [(5, 0)], unfinished_tasks = 1\<rparr>,
      workers = [LoopHead], running = True, stdout = [''Retrying task...''],
      calls = [(5, 1, RaisesException)], finished = [5]\<rparr>
   \<and> reachable 1 [Submit 4 (Some 0), Check 0, Dequeue 0, Run 0 Returns, TaskDone 0]
     \<lparr>task_queue = \<lparr>maxsize = 0, queue = [], unfinished_tasks = 0\<rparr>,
      workers = [LoopHead], running = True, stdout = [],
      calls = [(4, 0, Returns)], finished = [4]\<rparr>
   \<and> step Join
     \<lparr>task_queue = \<lparr>maxsize = 0, queue = [], unfinished_tasks = 0\<rparr>,
      workers = [LoopHead], running = True, stdout = [],
      calls = [(4, 0, Returns)], finished = [4]\<rparr> \<noteq> None"
proof -
  have r1: "reachable 1 [Submit 4 (Some 2), Check 0, Dequeue 0, Run 0 RaisesException]
     \<lparr>task_queue = \<lparr>maxsize = 0, queue = [], unfinished_tasks = 1\<rparr>,
      workers = [Handling 4 2], running = True, stdout = [],
      calls = [(4, 2, RaisesException)], finished = []\<rparr>"
    by (simp add: reachable_def init_def Queue_new_def worker_defs)
  have r2: "reachable 1 [Submit 4 (Some 0), Check 0, Dequeue 0, Run 0 Returns, TaskDone 0]
     \<lparr>task_queue = \<lparr>maxsize = 0, queue = [], unfinished_tasks = 0\<rparr>,
      workers = [LoopHead], running = True, stdout = [],
      calls = [(4, 0, Returns)], finished = [4]\<rparr>"
    by (simp add: reachable_def init_def Queue_new_def worker_defs)
  have r3: "reachable 1 [Submit 5 (Some 1), Check 0, Dequeue 0]
     \<lparr>task_queue = \<lparr>maxsize = 0, queue = [], unfinished_tasks = 1\<rparr>,
      workers = [Executing 5 1], running = True, stdout = [],
      calls = [], finished = []\<rparr>"
    by (simp add: reachable_def init_def Queue_new_def worker_defs)
  note t1 = successor_before_task_done [OF r1, of 0 4 2]
  note t2 = successor_before_task_done [OF r2, of 0 4 2]
  note t3 = successor_before_task_done [OF r3, of 0 5 1]
  have a: "step (TaskDone 0)
     \<lparr>task_queue = \<lparr>maxsize = 0, queue = [], unfinished_tasks = 1\<rparr>,
      workers = [Handling 4 2], running = True, stdout = [],
      calls = [(4, 2, RaisesException)], finished = []\<rparr> = None
   \<and> run [Handle 0, TaskDone 0]
     \<lparr>task_queue = \<lparr>maxsize = 0, queue = [], unfinished_tasks = 1\<rparr>,
      workers = [Handling 4 2], running = True, stdout = [],
      calls = [(4, 2, RaisesException)], finished = []\<rparr>
     = Some
     \<lparr>task_queue = \<lparr>maxsize = 0, queue = [(4, 1)], unfinished_tasks = 1\<rparr>,
      workers = [LoopHead], running = True, stdout = [''Retrying task...''],
      calls = [(4, 2, RaisesException)], finished = [4]\<rparr>"
    using t1 [THEN conjunct1] by (simp add: worker_defs)
  have b: "last_own 0 [Submit 4 (Some 2), Check 0, Dequeue 0, Run 0 RaisesException] = Some (Run 0 RaisesException)"
    using t1 [THEN conjunct2, THEN conjunct2, THEN conjunct2] by simp
  have c: "run [Run 0 RaisesException, TaskDone 0]
     \<lparr>task_queue = \<lparr>maxsize = 0, queue = [], unfinished_tasks = 1\<rparr>,
      workers = [Executing 5 1], running = True, stdout = [],
      calls = [], finished = []\<rparr> = None
   \<and> run [Run 0 RaisesException, Handle 0, TaskDone 0]
     \<lparr>task_queue = \<lparr>maxsize = 0, queue = [], unfinished_tasks = 1\<rparr>,
      workers = [Executing 5 1], running = True, stdout = [],
      calls = [], finished = []\<rparr>
     = Some
     \<lparr>task_queue = \<lparr>maxsize = 0, queue = [(5, 0)], unfinished_tasks = 1\<rparr>,
      workers = [LoopHead], running = True, stdout = [''Retrying task...''],
      calls = [(5, 1, RaisesException)], finished = [5]\<rparr>"
    using t3 [THEN conjunct2, THEN conjunct2, THEN conjunct1] by (simp add: worker_defs)
  have d: "step Join
     \<lparr>task_queue = \<lparr>maxsize = 0, queue = [], unfinished_tasks = 0\<rparr>,
      workers = [LoopHead], running = True, stdout = [],
      calls = [(4, 0, Returns)], finished = [4]\<rparr> \<noteq> None"
    by (simp add: join_returns_def)
  have e: "queue (task_queue
     \<lparr>task_queue = \<lparr>maxsize = 0, queue = [], unfinished_tasks = 0\<rparr>,
      workers = [LoopHead], running = True, stdout = [],
      calls = [(4, 0, Returns)], finished = [4]\<rparr>) = []"
    using t2 [THEN conjunct2, THEN conjunct1] d by simp
  show ?thesis using r1 r2 r3 a b c d e by simp
qed

text \<open>
  Claim C9 as stated has a successor enqueued before \<^verbatim>\<open>task_done()\<close> on every failed
  execution with retries left. With two workers and an item with retries 1 whose task
  raises a \<^verbatim>\<open>BaseException\<close> that is not an \<^verbatim>\<open>Exception\<close>: \<^verbatim>\<open>task_done()\<close> is called with
  no successor enqueued, the counter of unfinished items reaches zero and \<^verbatim>\<open>join()\<close>
  returns.
\<close>

theorem failure_without_successor_counterexample:
  "run [Submit 8 (Some 1), Check 1, Dequeue 1, Run 1 RaisesBaseException, TaskDone 1, Join]
     (init 2)
     = Some
     \<lparr>task_queue = \<lparr>maxsize = 0, queue = [], unfinished_tasks = 0\<rparr>,
      workers = [LoopHead, Crashed], running = True, stdout = [],
      calls = [(8, 1, RaisesBaseException)], finished = [8]\<rparr>"
  by (simp add: init_def Queue_new_def worker_defs numeral_2_eq_2)

section \<open>One call of task_done for each dequeued item\<close>

lemma step_count:
  assumes "step e s = Some s'" "w < length (workers s)"
  shows "(if e = Dequeue w then 1 else 0) + (if holds (workers s ! w) then 1 else (0::int))
       = (if e = TaskDone w then 1 else 0) + (if holds (workers s' ! w) then 1 else 0)"
proof (cases "worker_of e = Some w")
  case True
  then show ?thesis using assms
    by (cases e) (auto simp: worker_defs Let_def split: if_splits pc.splits sum.splits option.splits list.splits outcome.splits)
next
  case False
  then have "e \<noteq> Dequeue w" "e \<noteq> TaskDone w" by auto
  then show ?thesis using step_other_worker [OF assms(1) False] by simp
qed

lemma count_list_snoc: "count_list (xs @ [x]) y = count_list xs y + (if x = y then 1 else 0)"
  by (induction xs) auto

lemma reachable_count:
  assumes "reachable n es s" "w < n"
  shows "int (count_list es (Dequeue w))
       = int (count_list es (TaskDone w)) + (if holds (workers s ! w) then 1 else 0)"
  using assms(1)
proof (induction rule: reachable_induct)
  case init
  then show ?case using assms(2) by (simp add: init_def)
next
  case (step es s e s')
  have len: "w < length (workers s)" using reachable_shape [OF step.hyps(1)] assms(2) by simp
  show ?case using step_count [OF step.hyps(2) len] step.IH
    by (simp add: count_list_snoc split: if_splits)
qed

text \<open>
  Claim C4. In every execution, for every worker, the number of items the worker has
  dequeued equals the number of its \<^verbatim>\<open>task_done()\<close> calls, plus one while it still holds
  an item. And once a worker holds an item, its steps for that item run to the end
  whatever the outcome of \<^verbatim>\<open>task()\<close> (a return, an \<^verbatim>\<open>Exception\<close> with or without a
  retry, another \<^verbatim>\<open>BaseException\<close>): they contain exactly one \<^verbatim>\<open>task_done()\<close> call, which
  marks the item finished; the counter of unfinished items goes down by one, up by one
  again when a successor was enqueued.
\<close>

theorem task_done_once_per_item:
  assumes "reachable n es s" and "w < n"
  shows "int (count_list es (Dequeue w))
           = int (count_list es (TaskDone w)) + (if holds (workers s ! w) then 1 else 0)
       \<and> (workers s ! w = Executing t r \<longrightarrow>
            (\<exists>s'. run (process_item w out) s = Some s' \<and>
                  count_list (process_item w out) (TaskDone w) = 1 \<and>
                  \<not> holds (workers s' ! w) \<and>
                  finished s' = finished s @ [t] \<and>
                  unfinished_tasks (task_queue s') =
                    unfinished_tasks (task_queue s) - 1
                      + (if out = RaisesException \<and> 0 < r then 1 else 0)))"
proof (intro conjI impI)
  show "int (count_list es (Dequeue w))
           = int (count_list es (TaskDone w)) + (if holds (workers s ! w) then 1 else 0)"
    using reachable_count [OF assms] .
next
  assume ex: "workers s ! w = Executing t r"
  have len: "w < length (workers s)" using reachable_shape [OF assms(1)] assms(2) by simp
  have u: "1 \<le> unfinished_tasks (task_queue s)"
    using holding_unfinished [OF assms(1) len] ex by simp
  have m: "maxsize (task_queue s) = 0" using reachable_shape [OF assms(1)] by simp
  show "\<exists>s'. run (process_item w out) s = Some s' \<and>
                  count_list (process_item w out) (TaskDone w) = 1 \<and>
                  \<not> holds (workers s' ! w) \<and>
                  finished s' = finished s @ [t] \<and>
                  unfinished_tasks (task_queue s') =
                    unfinished_tasks (task_queue s) - 1
                      + (if out = RaisesException \<and> 0 < r then 1 else 0)"
    using ex len u m by (cases out) (simp_all add: process_item_def worker_defs)
qed

theorem task_done_once_per_item_witness:
  "reachable 2 [Submit 5 (Some 1), Check 1, Dequeue 1]
     \<lparr>task_queue = \<lparr>maxsize = 0, queue = [], unfinished_tasks = 1\<rparr>,
      workers = [LoopHead, Executing 5 1], running = True, stdout = [], calls = [],
      finished = []\<rparr>
   \<and> int (count_list [Submit 5 (Some 1), Check 1, Dequeue 1] (Dequeue 1))
       = int (count_list [Submit 5 (Some 1), Check 1, Dequeue 1] (TaskDone 1)) + 1
   \<and> (\<exists>s'. run (process_item 1 RaisesException)
              \<lparr>task_queue = \<lparr>maxsize = 0, queue = [], unfinished_tasks = 1\<rparr>,
               workers = [LoopHead, Executing 5 1], running = True, stdout = [], calls = [],
               finished = []\<rparr> = Some s'
            \<and> count_list (process_item 1 RaisesException) (TaskDone 1) = 1
            \<and> \<not> holds (workers s' ! 1)
            \<and> finished s' = [5]
            \<and> unfinished_tasks (task_queue s') = 1)"
proof -
  have r: "reachable 2 [Submit 5 (Some 1), Check 1, Dequeue 1]
     \<lparr>task_queue = \<lparr>maxsize = 0, queue = [], unfinished_tasks = 1\<rparr>,
      workers = [LoopHead, Executing 5 1], running = True, stdout = [], calls = [],
      finished = []\<rparr>"
    by (simp add: reachable_def init_def Queue_new_def worker_defs numeral_2_eq_2)
  show ?thesis
    using r task_done_once_per_item [OF r, of 1 5 1 RaisesException] by simp
qed

section \<open>The retry bound\<close>

lemma submitted_append: "submitted t (es @ es') = submitted t es @ submitted t es'"
  by (induction t es rule: submitted.induct) auto

lemma pc_budget_nonneg: "0 \<le> pc_budget t p"
  by (cases p) (auto simp: allowance_def)

lemma step_budget:
  assumes "step e s = Some s'" "maxsize (task_queue s) = 0"
  shows "int (executions t s') + pending_budget t s' + forfeited t s'
       = int (executions t s) + pending_budget t s + forfeited t s
         + (\<Sum>R\<leftarrow>submitted t [e]. allowance R)"
  using assms
  by (cases e)
     (auto simp: worker_defs executions_def pending_budget_def forfeited_def item_budget_def
        allowance_def sum_list_map_update Let_def
        split: if_splits pc.splits sum.splits option.splits list.splits outcome.splits)

lemma reachable_budget:
  assumes "reachable n es s"
  shows "int (executions t s) + pending_budget t s + forfeited t s
       = (\<Sum>R\<leftarrow>submitted t es. allowance R)"
  using assms
proof (induction rule: reachable_induct)
  case init
  show ?case
    by (simp add: init_def Queue_new_def executions_def pending_budget_def forfeited_def
          sum_list_replicate)
next
  case (step es s e s')
  have m: "maxsize (task_queue s) = 0" using reachable_shape [OF step.hyps(1)] by simp
  show ?case using step_budget [OF step.hyps(2) m, of t] step.IH
    by (simp add: submitted_append)
qed

lemma sum_list_all_zero:
  fixes f :: "'a \<Rightarrow> int"
  shows "(\<And>x. x \<in> set xs \<Longrightarrow> f x = 0) \<Longrightarrow> (\<Sum>x\<leftarrow>xs. f x) = 0"
  by (induction xs) auto

lemma sum_list_zero_member:
  fixes f :: "'a \<Rightarrow> int"
  assumes "(\<Sum>x\<leftarrow>xs. f x) = 0" "\<And>x. 0 \<le> f x" "x \<in> set xs"
  shows "f x = 0"
proof -
  from assms(3) obtain i where i: "i < length xs" "xs ! i = x"
    by (auto simp: in_set_conv_nth)
  have "f (xs ! i) \<le> (\<Sum>x\<leftarrow>xs. f x)" using i(1) assms(2) by (rule sum_list_nonneg_member)
  moreover have "0 \<le> f x" by (rule assms(2))
  ultimately show ?thesis using assms(1) i(2) by simp
qed

lemma item_budget_nonneg: "0 \<le> item_budget t item"
  by (simp add: item_budget_def allowance_def)

lemma pending_budget_nonneg: "0 \<le> pending_budget t s"
  unfolding pending_budget_def
  by (intro add_nonneg_nonneg sum_list_nonneg) (auto simp: item_budget_nonneg pc_budget_nonneg)

lemma forfeited_nonneg: "0 \<le> forfeited t s"
  unfolding forfeited_def by (rule sum_list_nonneg) auto

lemma forfeited_all_failures:
  assumes "\<forall>c \<in> set (calls s). fst c = t \<longrightarrow> snd (snd c) = RaisesException"
  shows "forfeited t s = 0"
  unfolding forfeited_def using assms by (intro sum_list_all_zero) auto

lemma not_holds_pc_budget: "\<not> holds p \<Longrightarrow> pc_budget t p = 0"
  by (cases p) auto

lemma drained:
  assumes "reachable n es s" "join_returns (task_queue s)"
  shows "queue (task_queue s) = [] \<and> (\<forall>p \<in> set (workers s). \<not> holds p)"
proof -
  have "int (length (queue (task_queue s))) + in_flight s = 0"
    using reachable_unfinished [OF assms(1)] assms(2) by (simp add: join_returns_def)
  then have "int (length (queue (task_queue s))) = 0 \<and> in_flight s = 0"
    using in_flight_nonneg [of s] by linarith
  then show ?thesis using in_flight_zero [of s] by auto
qed

lemma drained_pending_budget:
  assumes "reachable n es s" "join_returns (task_queue s)"
  shows "pending_budget t s = 0"
proof -
  have d: "queue (task_queue s) = []" "\<And>p. p \<in> set (workers s) \<Longrightarrow> \<not> holds p"
    using drained [OF assms] by auto
  have "(\<Sum>p\<leftarrow>workers s. pc_budget t p) = 0"
    by (rule sum_list_all_zero) (simp add: d(2) not_holds_pc_budget)
  then show ?thesis by (simp add: pending_budget_def d(1))
qed

lemma pending_budget_zero:
  assumes "pending_budget t s = 0"
  shows "(\<forall>item \<in> set (queue (task_queue s)). fst item \<noteq> t)
       \<and> (\<forall>r. Executing t r \<notin> set (workers s))
       \<and> (\<forall>r. Handling t r \<in> set (workers s) \<longrightarrow> r \<le> 0)"
proof -
  have q0: "0 \<le> (\<Sum>item\<leftarrow>queue (task_queue s). item_budget t item)"
    by (rule sum_list_nonneg) (auto simp: item_budget_nonneg)
  have w0: "0 \<le> (\<Sum>p\<leftarrow>workers s. pc_budget t p)"
    by (rule sum_list_nonneg) (auto simp: pc_budget_nonneg)
  have q: "(\<Sum>item\<leftarrow>queue (task_queue s). item_budget t item) = 0"
    and w: "(\<Sum>p\<leftarrow>workers s. pc_budget t p) = 0"
    using assms q0 w0 unfolding pending_budget_def by linarith+
  have a: "\<forall>item \<in> set (queue (task_queue s)). fst item \<noteq> t"
  proof
    fix item assume "item \<in> set (queue (task_queue s))"
    then have "item_budget t item = 0"
      using sum_list_zero_member [OF q item_budget_nonneg] by simp
    then show "fst item \<noteq> t" by (auto simp: item_budget_def allowance_def split: if_splits)
  qed
  have b: "\<And>p. p \<in> set (workers s) \<Longrightarrow> pc_budget t p = 0"
    using sum_list_zero_member [OF w pc_budget_nonneg] by simp
  have c: "\<forall>r. Executing t r \<notin> set (workers s)"
    using b by (fastforce simp: allowance_def)
  have d: "\<forall>r. Handling t r \<in> set (workers s) \<longrightarrow> r \<le> 0"
    using b by fastforce
  show ?thesis using a c d by simp
qed

lemma sum_list_map_mono:
  fixes f g :: "'a \<Rightarrow> int"
  shows "(\<And>x. x \<in> set xs \<Longrightarrow> f x \<le> g x) \<Longrightarrow> (\<Sum>x\<leftarrow>xs. f x) \<le> (\<Sum>x\<leftarrow>xs. g x)"
  by (induction xs) (auto intro: add_mono)

lemma awaiting_le_pending_budget: "awaiting t s \<le> pending_budget t s"
proof -
  have "(\<Sum>item\<leftarrow>queue (task_queue s). if fst item = t then 1 else 0)
          \<le> (\<Sum>item\<leftarrow>queue (task_queue s). item_budget t item)"
    by (rule sum_list_map_mono) (simp add: item_budget_def allowance_def)
  moreover have "(\<Sum>p\<leftarrow>workers s. case p of Executing t' r \<Rightarrow> if t' = t then 1 else 0 | _ \<Rightarrow> 0)
          \<le> (\<Sum>p\<leftarrow>workers s. pc_budget t p)"
  proof (rule sum_list_map_mono)
    fix p
    show "(case p of Executing t' r \<Rightarrow> if t' = t then 1 else 0 | _ \<Rightarrow> 0) \<le> pc_budget t p"
      by (cases p) (auto simp: allowance_def)
  qed
  ultimately show ?thesis by (simp add: awaiting_def pending_budget_def)
qed

lemma retry_budget:
  assumes "reachable n es s"
  shows "int (executions t s) + awaiting t s \<le> (\<Sum>R\<leftarrow>submitted t es. allowance R)
       \<and> (submitted t es = [R] \<and> 0 \<le> R \<longrightarrow> int (executions t s) \<le> R + 1)
       \<and> (submitted t es = [R] \<and> 0 \<le> R \<and> join_returns (task_queue s) \<and>
            (\<forall>c \<in> set (calls s). fst c = t \<longrightarrow> snd (snd c) = RaisesException)
            \<longrightarrow> int (executions t s) = R + 1)
       \<and> (submitted t es = [R] \<and> 0 \<le> R \<and> int (executions t s) = R + 1
            \<longrightarrow> (\<forall>item \<in> set (queue (task_queue s)). fst item \<noteq> t)
              \<and> (\<forall>r. Executing t r \<notin> set (workers s))
              \<and> (\<forall>r. Handling t r \<in> set (workers s) \<longrightarrow> r \<le> 0))"
proof -
  have inv: "int (executions t s) + pending_budget t s + forfeited t s
           = (\<Sum>R\<leftarrow>submitted t es. allowance R)"
    using reachable_budget [OF assms] .
  have p: "0 \<le> pending_budget t s" and f: "0 \<le> forfeited t s"
    by (rule pending_budget_nonneg, rule forfeited_nonneg)
  have a: "awaiting t s \<le> pending_budget t s" by (rule awaiting_le_pending_budget)
  have c1: "int (executions t s) + awaiting t s \<le> (\<Sum>R\<leftarrow>submitted t es. allowance R)"
    using inv a f by linarith
  have c2: "submitted t es = [R] \<and> 0 \<le> R \<longrightarrow> int (executions t s) \<le> R + 1"
    using inv p f by (auto simp: allowance_def)
  have c3: "submitted t es = [R] \<and> 0 \<le> R \<and> join_returns (task_queue s) \<and>
            (\<forall>c \<in> set (calls s). fst c = t \<longrightarrow> snd (snd c) = RaisesException)
            \<longrightarrow> int (executions t s) = R + 1"
  proof (intro impI, elim conjE)
    assume h: "submitted t es = [R]" "0 \<le> R" "join_returns (task_queue s)"
      "\<forall>c \<in> set (calls s). fst c = t \<longrightarrow> snd (snd c) = RaisesException"
    have "pending_budget t s = 0" using drained_pending_budget [OF assms h(3)] .
    moreover have "forfeited t s = 0" using forfeited_all_failures [OF h(4)] .
    ultimately show "int (executions t s) = R + 1" using inv h(1,2) by (simp add: allowance_def)
  qed
  have c4: "submitted t es = [R] \<and> 0 \<le> R \<and> int (executions t s) = R + 1
            \<longrightarrow> (\<forall>item \<in> set (queue (task_queue s)). fst item \<noteq> t)
              \<and> (\<forall>r. Executing t r \<notin> set (workers s))
              \<and> (\<forall>r. Handling t r \<in> set (workers s) \<longrightarrow> r \<le> 0)"
  proof (intro impI, elim conjE)
    assume h: "submitted t es = [R]" "0 \<le> R" "int (executions t s) = R + 1"
    have "pending_budget t s = 0" using inv p f h by (simp add: allowance_def)
    then show "(\<forall>item \<in> set (queue (task_queue s)). fst item \<noteq> t)
              \<and> (\<forall>r. Executing t r \<notin> set (workers s))
              \<and> (\<forall>r. Handling t r \<in> set (workers s) \<longrightarrow> r \<le> 0)"
      by (rule pending_budget_zero)
  qed
  show ?thesis using c1 c2 c3 c4 by blast
qed

text \<open>
  Claim C1, amended. In every execution the number of completed calls of a task, plus the
  number of its items still waiting to be called (queued, or held by a worker that is
  calling the task), is at most the sum, over the caller's submissions of that task, of
  \<open>max R 0 + 1\<close>; so a task submitted once with retries \<open>R \<ge> 0\<close> is executed at most
  \<open>R + 1\<close> times. When every execution of the task raised an \<^verbatim>\<open>Exception\<close> and \<^verbatim>\<open>join()\<close>
  can return, it has been executed exactly \<open>R + 1\<close> times (3 times for \<open>R = 2\<close>). Once it
  has been executed \<open>R + 1\<close> times it is dropped: no item of the task is in the queue, no
  worker is about to execute it, and no worker is about to resubmit it. In general, when
  \<^verbatim>\<open>join()\<close> can return, the executions and the retries forfeited by the calls that
  returned or raised another \<^verbatim>\<open>BaseException\<close> add up to \<open>R + 1\<close>.
\<close>

theorem retry_bound:
  assumes "reachable n es s"
  shows "int (executions t s) + awaiting t s \<le> (\<Sum>R\<leftarrow>submitted t es. allowance R)
       \<and> (submitted t es = [R] \<and> 0 \<le> R \<longrightarrow> int (executions t s) \<le> R + 1)
       \<and> (submitted t es = [R] \<and> 0 \<le> R \<and> join_returns (task_queue s) \<and>
            (\<forall>c \<in> set (calls s). fst c = t \<longrightarrow> snd (snd c) = RaisesException)
            \<longrightarrow> int (executions t s) = R + 1)
       \<and> (submitted t es = [R] \<and> 0 \<le> R \<and> int (executions t s) = R + 1
            \<longrightarrow> (\<forall>item \<in> set (queue (task_queue s)). fst item \<noteq> t)
              \<and> (\<forall>r. Executing t r \<notin> set (workers s))
              \<and> (\<forall>r. Handling t r \<in> set (workers s) \<longrightarrow> r \<le> 0))
       \<and> (submitted t es = [R] \<and> 0 \<le> R \<and> join_returns (task_queue s)
            \<longrightarrow> int (executions t s) + forfeited t s = R + 1)"
proof -
  have old: "int (executions t s) + awaiting t s \<le> (\<Sum>R\<leftarrow>submitted t es. allowance R)
       \<and> (submitted t es = [R] \<and> 0 \<le> R \<longrightarrow> int (executions t s) \<le> R + 1)
       \<and> (submitted t es = [R] \<and> 0 \<le> R \<and> join_returns (task_queue s) \<and>
            (\<forall>c \<in> set (calls s). fst c = t \<longrightarrow> snd (snd c) = RaisesException)
            \<longrightarrow> int (executions t s) = R + 1)
       \<and> (submitted t es = [R] \<and> 0 \<le> R \<and> int (executions t s) = R + 1
            \<longrightarrow> (\<forall>item \<in> set (queue (task_queue s)). fst item \<noteq> t)
              \<and> (\<forall>r. Executing t r \<notin> set (workers s))
              \<and> (\<forall>r. Handling t r \<in> set (workers s) \<longrightarrow> r \<le> 0))"
    using assms by (rule retry_budget)
  have c5: "(submitted t es = [R] \<and> 0 \<le> R \<and> join_returns (task_queue s)
            \<longrightarrow> int (executions t s) + forfeited t s = R + 1)"
  proof (intro impI, elim conjE)
    assume h: "submitted t es = [R]" "0 \<le> R" "join_returns (task_queue s)"
    have "int (executions t s) + pending_budget t s + forfeited t s
            = (\<Sum>R\<leftarrow>submitted t es. allowance R)"
      using reachable_budget [OF assms] .
    moreover have "pending_budget t s = 0" using drained_pending_budget [OF assms h(3)] .
    ultimately show "int (executions t s) + forfeited t s = R + 1"
      using h(1,2) by (simp add: allowance_def)
  qed
  show ?thesis using old c5 by blast
qed

theorem retry_bound_witness:
  "reachable 2
     [Submit 0 (Some 2), Check 0, Check 1, Dequeue 0, Run 0 RaisesException, Handle 0,
      TaskDone 0, Dequeue 1, Run 1 RaisesException, Handle 1, TaskDone 1, Check 0, Dequeue 0,
      Run 0 RaisesException, Handle 0, TaskDone 0]
     \<lparr>task_queue = \<lparr>maxsize = 0, queue = [], unfinished_tasks = 0\<rparr>,
      workers = [LoopHead, LoopHead], running = True,
      stdout = [''Retrying task...'', ''Retrying task...''],
      calls = [(0, 2, RaisesException), (0, 1, RaisesException), (0, 0, RaisesException)],
      finished = [0, 0, 0]\<rparr>
   \<and> submitted 0
     [Submit 0 (Some 2), Check 0, Check 1, Dequeue 0, Run 0 RaisesException, Handle 0,
      TaskDone 0, Dequeue 1, Run 1 RaisesException, Handle 1, TaskDone 1, Check 0, Dequeue 0,
      Run 0 RaisesException, Handle 0, TaskDone 0] = [2]
   \<and> join_returns (task_queue
     \<lparr>task_queue = \<lparr>maxsize = 0, queue = [], unfinished_tasks = 0\<rparr>,
      workers = [LoopHead, LoopHead], running = True,
      stdout = [''Retrying task...'', ''Retrying task...''],
      calls = [(0, 2, RaisesException), (0, 1, RaisesException), (0, 0, RaisesException)],
      finished = [0, 0, 0]\<rparr>)
   \<and> int (executions 0
     \<lparr>task_queue = \<lparr>maxsize = 0, queue = [], unfinished_tasks = 0\<rparr>,
      workers = [LoopHead, LoopHead], running = True,
      stdout = [''Retrying task...'', ''Retrying task...''],
      calls = [(0, 2, RaisesException), (0, 1, RaisesException), (0, 0, RaisesException)],
      finished = [0, 0, 0]\<rparr>) = 2 + 1
   \<and> step Join
     \<lparr>task_queue = \<lparr>maxsize = 0, queue = [], unfinished_tasks = 0\<rparr>,
      workers = [LoopHead, LoopHead], running = True,
      stdout = [''Retrying task...'', ''Retrying task...''],
      calls = [(0, 2, RaisesException), (0, 1, RaisesException), (0, 0, RaisesException)],
      finished = [0, 0, 0]\<rparr> \<noteq> None"
proof -
  have r: "reachable 2
     [Submit 0 (Some 2), Check 0, Check 1, Dequeue 0, Run 0 RaisesException, Handle 0,
      TaskDone 0, Dequeue 1, Run 1 RaisesException, Handle 1, TaskDone 1, Check 0, Dequeue 0,
      Run 0 RaisesException, Handle 0, TaskDone 0]
     \<lparr>task_queue = \<lparr>maxsize = 0, queue = [], unfinished_tasks = 0\<rparr>,
      workers = [LoopHead, LoopHead], running = True,
      stdout = [''Retrying task...'', ''Retrying task...''],
      calls = [(0, 2, RaisesException), (0, 1, RaisesException), (0, 0, RaisesException)],
      finished = [0, 0, 0]\<rparr>"
    by (simp add: reachable_def init_def Queue_new_def worker_defs numeral_2_eq_2)
  have sub: "submitted 0
     [Submit 0 (Some 2), Check 0, Check 1, Dequeue 0, Run 0 RaisesException, Handle 0,
      TaskDone 0, Dequeue 1, Run 1 RaisesException, Handle 1, TaskDone 1, Check 0, Dequeue 0,
      Run 0 RaisesException, Handle 0, TaskDone 0] = [2]"
    by (simp add: default_retries_def)
  show ?thesis
    using r sub retry_bound [OF r, of 0 2]
    by (simp add: join_returns_def executions_def)
qed

text \<open>
  Claim C1 as stated has every always-failing task with retries 2 executed exactly 3
  times. With two workers and a task, submitted with retries 2, whose execution raises a
  \<^verbatim>\<open>BaseException\<close> that is not an \<^verbatim>\<open>Exception\<close>: the task is executed once, nothing is
  resubmitted, and \<^verbatim>\<open>join()\<close> returns.
\<close>

theorem failing_task_executed_once_counterexample:
  "run [Submit 0 (Some 2), Check 0, Check 1, Dequeue 1, Run 1 RaisesBaseException, TaskDone 1,
      Join] (init 2)
     = Some
     \<lparr>task_queue = \<lparr>maxsize = 0, queue = [], unfinished_tasks = 0\<rparr>,
      workers = [Polling, Crashed], running = True, stdout = [],
      calls = [(0, 2, RaisesBaseException)], finished = [0]\<rparr>
   \<and> submitted 0
     [Submit 0 (Some 2), Check 0, Check 1, Dequeue 1, Run 1 RaisesBaseException, TaskDone 1,
      Join] = [2]
   \<and> executions 0
     \<lparr>task_queue = \<lparr>maxsize = 0, queue = [], unfinished_tasks = 0\<rparr>,
      workers = [Polling, Crashed], running = True, stdout = [],
      calls = [(0, 2, RaisesBaseException)], finished = [0]\<rparr> = 1"
  by (simp add: init_def Queue_new_def worker_defs numeral_2_eq_2 executions_def)

section \<open>Negative retries\<close>










section \<open>First in, first out\<close>

lemma submitted_tasks_append:
  "submitted_tasks (es @ es') = submitted_tasks es @ submitted_tasks es'"
  by (induction es rule: submitted_tasks.induct) auto

lemma step_calls:
  assumes "step e s = Some s'"
  shows "\<exists>cs. calls s' = calls s @ cs"
  using assms
  by (cases e)
     (auto simp: worker_defs Let_def
        split: if_splits pc.splits sum.splits option.splits list.splits outcome.splits)

lemma in_order_single:
  assumes "in_order es s"
  obtains p where "workers s = [p]" "\<not> handling p"
    "finished s @ held_task p @ map fst (queue (task_queue s)) = submitted_tasks es"
    "map fst (calls s) @ called_task p @ map fst (queue (task_queue s)) = submitted_tasks es"
proof -
  from assms have "length (workers s) = 1" by (simp add: in_order_def)
  then obtain p where p: "workers s = [p]" by (cases "workers s") auto
  show ?thesis using assms p that [of p] by (simp add: in_order_def)
qed

lemma step_in_order:
  assumes "step e s = Some s'" "maxsize (task_queue s) = 0" "in_order es s"
    "\<forall>c \<in> set (calls s'). snd (snd c) = Returns"
    "holds (workers s ! 0) \<longrightarrow> 1 \<le> unfinished_tasks (task_queue s)"
  shows "in_order (es @ [e]) s'"
proof -
  from assms(3) obtain p where p: "workers s = [p]" "\<not> handling p"
    "finished s @ held_task p @ map fst (queue (task_queue s)) = submitted_tasks es"
    "map fst (calls s) @ called_task p @ map fst (queue (task_queue s)) = submitted_tasks es"
    by (rule in_order_single)
  show ?thesis
    using assms(1,2,4,5) p
    by (cases e; cases p)
       (auto simp: in_order_def worker_defs submitted_tasks_append Let_def
          split: if_splits sum.splits option.splits list.splits outcome.splits)
qed

lemma reachable_in_order:
  assumes "reachable 1 es s"
  shows "(\<forall>c \<in> set (calls s). snd (snd c) = Returns) \<longrightarrow> in_order es s"
  using assms
proof (induction rule: reachable_induct)
  case init
  show ?case by (simp add: in_order_def init_def Queue_new_def)
next
  case (step es s e s')
  show ?case
  proof
    assume all: "\<forall>c \<in> set (calls s'). snd (snd c) = Returns"
    obtain cs where "calls s' = calls s @ cs" using step_calls [OF step.hyps(2)] by blast
    then have "\<forall>c \<in> set (calls s). snd (snd c) = Returns" using all by simp
    then have io: "in_order es s" using step.IH by simp
    have m: "maxsize (task_queue s) = 0" using reachable_shape [OF step.hyps(1)] by simp
    have len: "0 < length (workers s)" using reachable_shape [OF step.hyps(1)] by simp
    have u: "holds (workers s ! 0) \<longrightarrow> 1 \<le> unfinished_tasks (task_queue s)"
      using holding_unfinished [OF step.hyps(1) len] by simp
    show "in_order (es @ [e]) s'" using step_in_order [OF step.hyps(2) m io all u] .
  qed
qed

lemma append_take:
  "xs @ ys = zs \<Longrightarrow> xs = take (length xs) zs"
  by auto

lemma in_order_prefix:
  assumes "in_order es s"
  shows "map fst (calls s) = take (length (calls s)) (submitted_tasks es)
       \<and> finished s = take (length (finished s)) (submitted_tasks es)"
proof -
  from assms obtain p where
    f: "finished s @ held_task p @ map fst (queue (task_queue s)) = submitted_tasks es" and
    c: "map fst (calls s) @ called_task p @ map fst (queue (task_queue s)) = submitted_tasks es"
    by (rule in_order_single)
  show ?thesis using append_take [OF f] append_take [OF c] by simp
qed

lemma in_order_drained:
  assumes "in_order es s" "queue (task_queue s) = []" "\<forall>p \<in> set (workers s). \<not> holds p"
  shows "map fst (calls s) = submitted_tasks es \<and> finished s = submitted_tasks es"
proof -
  from assms(1) obtain p where p: "workers s = [p]" and
    f: "finished s @ held_task p @ map fst (queue (task_queue s)) = submitted_tasks es" and
    c: "map fst (calls s) @ called_task p @ map fst (queue (task_queue s)) = submitted_tasks es"
    by (rule in_order_single)
  have "\<not> holds p" using assms(3) p by simp
  then have "held_task p = []" "called_task p = []" by (cases p; simp)+
  then show ?thesis using f c assms(2) by simp
qed

text \<open>
  Claim C7. A polling worker that finds the queue non-empty removes and receives its
  head (and its dequeue attempt cannot time out). With a single worker and tasks that
  always return, the tasks are called, and their items finished, in the order of
  submission: at any moment the called and the finished tasks are initial segments of
  the submitted ones, and all of them once \<^verbatim>\<open>join()\<close> can return; so A submitted before B
  is executed and completed before B. A failed task is resubmitted at the tail: in the
  execution shown, task 0 is submitted before task 1, fails once, and its successful
  execution comes after that of task 1.
\<close>

theorem fifo_order:
  assumes "reachable n es s"
  shows "(w < n \<and> workers s ! w = Polling \<and> queue (task_queue s) = item # rest \<longrightarrow>
            step (Dequeue w) s =
              Some (s\<lparr>task_queue := (task_queue s)\<lparr>queue := rest\<rparr>,
                     workers := (workers s)[w := Executing (fst item) (snd item)]\<rparr>)
            \<and> step (Timeout w) s = None)
       \<and> (n = 1 \<and> (\<forall>c \<in> set (calls s). snd (snd c) = Returns) \<longrightarrow>
            map fst (calls s) = take (length (calls s)) (submitted_tasks es)
            \<and> finished s = take (length (finished s)) (submitted_tasks es)
            \<and> (join_returns (task_queue s) \<longrightarrow>
                 map fst (calls s) = submitted_tasks es \<and> finished s = submitted_tasks es))
       \<and> run [Submit 0 (Some 1), Submit 1 (Some 1), Check 0, Dequeue 0, Run 0 RaisesException,
               Handle 0, TaskDone 0, Check 0, Dequeue 0, Run 0 Returns, TaskDone 0, Check 0,
               Dequeue 0, Run 0 Returns, TaskDone 0] (init 1)
           = Some \<lparr>task_queue = \<lparr>maxsize = 0, queue = [], unfinished_tasks = 0\<rparr>,
                  workers = [LoopHead], running = True, stdout = [''Retrying task...''],
                  calls = [(0, 1, RaisesException), (1, 1, Returns), (0, 0, Returns)],
                  finished = [0, 1, 0]\<rparr>"
proof (intro conjI impI)
  assume h: "w < n \<and> workers s ! w = Polling \<and> queue (task_queue s) = item # rest"
  then have len: "w < length (workers s)" using reachable_shape [OF assms] by simp
  show "step (Dequeue w) s =
              Some (s\<lparr>task_queue := (task_queue s)\<lparr>queue := rest\<rparr>,
                     workers := (workers s)[w := Executing (fst item) (snd item)]\<rparr>)"
    using h len by (cases item) (simp add: worker_defs)
  show "step (Timeout w) s = None" using h len by (simp add: worker_defs)
next
  assume h: "n = 1 \<and> (\<forall>c \<in> set (calls s). snd (snd c) = Returns)"
  then have io: "in_order es s" using reachable_in_order assms by blast
  show "map fst (calls s) = take (length (calls s)) (submitted_tasks es)"
    using in_order_prefix [OF io] by simp
  show "finished s = take (length (finished s)) (submitted_tasks es)"
    using in_order_prefix [OF io] by simp
  assume j: "join_returns (task_queue s)"
  have d: "queue (task_queue s) = []" "\<forall>p \<in> set (workers s). \<not> holds p"
    using drained [OF assms j] by simp_all
  show "map fst (calls s) = submitted_tasks es" using in_order_drained [OF io d] by simp
  show "finished s = submitted_tasks es" using in_order_drained [OF io d] by simp
next
  show "run [Submit 0 (Some 1), Submit 1 (Some 1), Check 0, Dequeue 0, Run 0 RaisesException,
               Handle 0, TaskDone 0, Check 0, Dequeue 0, Run 0 Returns, TaskDone 0, Check 0,
               Dequeue 0, Run 0 Returns, TaskDone 0] (init 1)
           = Some \<lparr>task_queue = \<lparr>maxsize = 0, queue = [], unfinished_tasks = 0\<rparr>,
                  workers = [LoopHead], running = True, stdout = [''Retrying task...''],
                  calls = [(0, 1, RaisesException), (1, 1, Returns), (0, 0, Returns)],
                  finished = [0, 1, 0]\<rparr>"
    by (simp add: init_def Queue_new_def worker_defs)
qed

theorem fifo_order_witness:
  "reachable 1 [Submit 0 None, Submit 1 None, Check 0]
     \<lparr>task_queue = \<lparr>maxsize = 0, queue = [(0, 3), (1, 3)], unfinished_tasks = 2\<rparr>,
      workers = [Polling], running = True, stdout = [], calls = [], finished = []\<rparr>
   \<and> step (Dequeue 0)
     \<lparr>task_queue = \<lparr>maxsize = 0, queue = [(0, 3), (1, 3)], unfinished_tasks = 2\<rparr>,
      workers = [Polling], running = True, stdout = [], calls = [], finished = []\<rparr>
     = Some
     \<lparr>task_queue = \<lparr>maxsize = 0, queue = [(1, 3)], unfinished_tasks = 2\<rparr>,
      workers = [Executing 0 3], running = True, stdout = [], calls = [], finished = []\<rparr>
   \<and> reachable 1
     [Submit 0 None, Submit 1 None, Check 0, Dequeue 0, Run 0 Returns, TaskDone 0, Check 0,
      Dequeue 0, Run 0 Returns, TaskDone 0]
     \<lparr>task_queue = \<lparr>maxsize = 0, queue = [], unfinished_tasks = 0\<rparr>,
      workers = [LoopHead], running = True, stdout = [],
      calls = [(0, 3, Returns), (1, 3, Returns)], finished = [0, 1]\<rparr>
   \<and> join_returns (task_queue
     \<lparr>task_queue = \<lparr>maxsize = 0, queue = [], unfinished_tasks = 0\<rparr>,
      workers = [LoopHead], running = True, stdout = [],
      calls = [(0, 3, Returns), (1, 3, Returns)], finished = [0, 1]\<rparr>)
   \<and> submitted_tasks
     [Submit 0 None, Submit 1 None, Check 0, Dequeue 0, Run 0 Returns, TaskDone 0, Check 0,
      Dequeue 0, Run 0 Returns, TaskDone 0] = [0, 1]
   \<and> map fst (calls
     \<lparr>task_queue = \<lparr>maxsize = 0, queue = [], unfinished_tasks = 0\<rparr>,
      workers = [LoopHead], running = True, stdout = [],
      calls = [(0, 3, Returns), (1, 3, Returns)], finished = [0, 1]\<rparr>) = [0, 1]
   \<and> finished
     \<lparr>task_queue = \<lparr>maxsize = 0, queue = [], unfinished_tasks = 0\<rparr>,
      workers = [LoopHead], running = True, stdout = [],
      calls = [(0, 3, Returns), (1, 3, Returns)], finished = [0, 1]\<rparr> = [0, 1]"
proof -
  have ra: "reachable 1 [Submit 0 None, Submit 1 None, Check 0]
     \<lparr>task_queue = \<lparr>maxsize = 0, queue = [(0, 3), (1, 3)], unfinished_tasks = 2\<rparr>,
      workers = [Polling], running = True, stdout = [], calls = [], finished = []\<rparr>"
    by (simp add: reachable_def init_def Queue_new_def worker_defs)
  have rb: "reachable 1
     [Submit 0 None, Submit 1 None, Check 0, Dequeue 0, Run 0 Returns, TaskDone 0, Check 0,
      Dequeue 0, Run 0 Returns, TaskDone 0]
     \<lparr>task_queue = \<lparr>maxsize = 0, queue = [], unfinished_tasks = 0\<rparr>,
      workers = [LoopHead], running = True, stdout = [],
      calls = [(0, 3, Returns), (1, 3, Returns)], finished = [0, 1]\<rparr>"
    by (simp add: reachable_def init_def Queue_new_def worker_defs)
  show ?thesis
    using ra rb fifo_order [OF ra, of 0 "(0, 3)" "[(1, 3)]"] fifo_order [OF rb, of 0 "(0, 3)" "[]"]
    by (simp add: join_returns_def)
qed

end
